theory Spec2Isabelle
  imports Complex_Main "HOL-Library.Sublist"
begin

section \<open>Conventions of the embedding\<close>

text \<open>
  The development embeds the scheduling core of the scraper
  (\<^verbatim>\<open>backend/ai_scraper_core.py\<close>, \<^verbatim>\<open>backend/super_parallel_engine.py\<close>) and the
  start endpoint of \<^verbatim>\<open>backend/medical_scraper_api.py\<close>.

  \<^item> Python \<^verbatim>\<open>int\<close> is \<^typ>\<open>int\<close>.
  \<^item> Python \<^verbatim>\<open>float\<close> is \<^typ>\<open>real\<close>: arithmetic is exact, there is no rounding, no
    infinity and no NaN. Every decimal literal of the source is the rational it denotes.
    Where Python raises instead of returning an infinity, in \<^verbatim>\<open>**\<close>, the model raises
    too.
  \<^item> Python \<^verbatim>\<open>str\<close> is \<^typ>\<open>string\<close>; a character is one of the 256 values of
    \<^typ>\<open>char\<close>.
  \<^item> A dictionary with a fixed set of string keys is a record; a \<^verbatim>\<open>defaultdict\<close> is a
    map together with the default its factory builds.
  \<^item> The wall clock (\<^verbatim>\<open>time.time()\<close>) is an argument named \<open>now\<close>.
  \<^item> A coroutine is the function it computes; no claim treated here depends on the
    interleaving of coroutines.
\<close>

definition py_int :: "real \<Rightarrow> int" where
  \<comment> \<open>\<^verbatim>\<open>int(x)\<close> on a float: truncation toward zero.\<close>
  "py_int x = (if 0 \<le> x then \<lfloor>x\<rfloor> else \<lceil>x\<rceil>)"

section \<open>Enumerations of \<^verbatim>\<open>ai_scraper_core\<close>\<close>

datatype ScrapingPriority = CRITICAL | HIGH | MEDIUM | LOW | BACKGROUND

datatype ScrapingTier =
    TIER_1_GOVERNMENT
  | TIER_2_INTERNATIONAL
  | TIER_3_ACADEMIC
  | TIER_4_JOURNALS
  | TIER_5_DATABASES
  | TIER_6_MEDICAL_SITES
  | TIER_7_APIS
  | TIER_8_DISEASE_ORGS
  | TIER_9_NEWS
  | TIER_10_INTERNATIONAL_MISC

section \<open>\<^verbatim>\<open>DynamicLoadBalancer\<close>\<close>

record ProcessingMetrics =
  tasks_queued :: int
  tasks_processing :: int
  tasks_completed :: int
  tasks_failed :: int
  avg_processing_time :: real
  peak_concurrent_tasks :: int
  total_content_extracted_mb :: real
  current_processing_rate :: real
  memory_usage_mb :: real
  cpu_usage_percent :: real
  network_bandwidth_mbps :: real

text \<open>One entry of \<^verbatim>\<open>tier_performance\<close>. The key \<^verbatim>\<open>'avg_response_time'\<close> is also a key
  of the rate limiter's per-domain dictionary; here it is \<open>tier_avg_response_time\<close>.\<close>

record tier_stats =
  tier_avg_response_time :: real
  success_rate :: real
  current_load :: int
  optimal_concurrency :: int
  last_adjustment :: real

type_synonym DynamicLoadBalancer = "ScrapingTier \<rightharpoonup> tier_stats"

definition default_tier_stats :: "real \<Rightarrow> tier_stats" where
  \<comment> \<open>The factory of the \<^verbatim>\<open>defaultdict\<close> in \<^verbatim>\<open>__init__\<close>.\<close>
  "default_tier_stats now =
     \<lparr> tier_avg_response_time = 5.0, success_rate = 0.8, current_load = 0,
       optimal_concurrency = 50, last_adjustment = now \<rparr>"

definition tier_performance :: "DynamicLoadBalancer \<Rightarrow> ScrapingTier \<Rightarrow> real \<Rightarrow> tier_stats" where
  \<comment> \<open>\<^verbatim>\<open>self.tier_performance[tier.value]\<close>: a missing key yields the default entry.\<close>
  "tier_performance lb tier now =
     (case lb tier of Some s \<Rightarrow> s | None \<Rightarrow> default_tier_stats now)"

fun base_concurrency :: "ScrapingTier \<Rightarrow> real" where
  \<comment> \<open>\<^verbatim>\<open>base_concurrency.get(tier.value, 50)\<close>\<close>
  "base_concurrency TIER_1_GOVERNMENT = 100"
| "base_concurrency TIER_2_INTERNATIONAL = 80"
| "base_concurrency TIER_3_ACADEMIC = 120"
| "base_concurrency _ = 50"

definition calculate_system_resource_multiplier :: "ProcessingMetrics \<Rightarrow> real" where
  "calculate_system_resource_multiplier metrics =
     (let cpu_factor =
            (if cpu_usage_percent metrics > 90 then 0.5
             else if cpu_usage_percent metrics > 80 then 0.7
             else if cpu_usage_percent metrics > 70 then 0.9
             else 1.0);
          memory_factor =
            (if memory_usage_mb metrics > 8000 then 0.6
             else if memory_usage_mb metrics > 6000 then 0.8
             else if memory_usage_mb metrics > 4000 then 0.9
             else 1.0)
      in min cpu_factor memory_factor)"

definition calculate_optimal_concurrency ::
  "DynamicLoadBalancer \<Rightarrow> ScrapingTier \<Rightarrow> ProcessingMetrics \<Rightarrow> real \<Rightarrow> DynamicLoadBalancer \<times> int" where
  "calculate_optimal_concurrency lb tier current_metrics now =
     (let stats = tier_performance lb tier now;
          base_level = base_concurrency tier;
          success_multiplier = min 1.5 (max 0.3 (success_rate stats));
          response_time = tier_avg_response_time stats;
          time_multiplier =
            (if response_time < 2.0 then 1.2
             else if response_time < 5.0 then 1.0
             else if response_time < 10.0 then 0.8
             else 0.5);
          system_multiplier = calculate_system_resource_multiplier current_metrics;
          optimal = py_int (base_level * success_multiplier * time_multiplier * system_multiplier);
          stats' = stats\<lparr> optimal_concurrency := max 10 (min optimal 500),
                          last_adjustment := now \<rparr>
      in (lb(tier \<mapsto> stats'), optimal_concurrency stats'))"

definition update_tier_performance ::
  "DynamicLoadBalancer \<Rightarrow> ScrapingTier \<Rightarrow> real \<Rightarrow> bool \<Rightarrow> int \<Rightarrow> real \<Rightarrow> DynamicLoadBalancer" where
  "update_tier_performance lb tier response_time success load now =
     (let stats = tier_performance lb tier now;
          alpha = 0.1;
          stats1 = stats\<lparr> tier_avg_response_time :=
                     alpha * response_time + (1 - alpha) * tier_avg_response_time stats \<rparr>;
          stats2 = stats1\<lparr> success_rate :=
                     alpha * (if success then 1.0 else 0.0) + (1 - alpha) * success_rate stats1 \<rparr>;
          stats3 = stats2\<lparr> current_load := load \<rparr>
      in lb(tier \<mapsto> stats3))"

section \<open>Strings\<close>

text \<open>The operations of \<^verbatim>\<open>str\<close> and \<^verbatim>\<open>re\<close> that the source uses, on 8-bit characters.\<close>

fun str_contains :: "string \<Rightarrow> string \<Rightarrow> bool" where
  \<comment> \<open>\<^verbatim>\<open>pat in s\<close>\<close>
  "str_contains pat [] = (pat = [])"
| "str_contains pat (c # cs) = (prefix pat (c # cs) \<or> str_contains pat cs)"

definition is_digit :: "char \<Rightarrow> bool" where
  \<comment> \<open>\<^verbatim>\<open>\d\<close>: among the 256 characters only \<^verbatim>\<open>0\<close> to \<^verbatim>\<open>9\<close> are decimal digits.\<close>
  "is_digit c = (48 \<le> (of_char c :: nat) \<and> (of_char c :: nat) \<le> 57)"

definition is_ascii_upper :: "char \<Rightarrow> bool" where
  "is_ascii_upper c = (65 \<le> (of_char c :: nat) \<and> (of_char c :: nat) \<le> 90)"

definition is_ascii_lower :: "char \<Rightarrow> bool" where
  "is_ascii_lower c = (97 \<le> (of_char c :: nat) \<and> (of_char c :: nat) \<le> 122)"

definition lower_char :: "char \<Rightarrow> char" where
  \<comment> \<open>Lower case of one character: \<^verbatim>\<open>A\<close> to \<^verbatim>\<open>Z\<close>, and the upper-case letters of
     Latin-1 (192 to 222 except the multiplication sign 215), move up by 32.\<close>
  "lower_char c =
     (let n = (of_char c :: nat)
      in if is_ascii_upper c \<or> (192 \<le> n \<and> n \<le> 222 \<and> n \<noteq> 215)
         then char_of (n + 32) else c)"

definition lower :: "string \<Rightarrow> string" where
  \<comment> \<open>\<^verbatim>\<open>s.lower()\<close>\<close>
  "lower s = map lower_char s"

definition rstrip_slash :: "string \<Rightarrow> string" where
  \<comment> \<open>\<^verbatim>\<open>s.rstrip('/')\<close>\<close>
  "rstrip_slash s = rev (dropWhile (\<lambda>c. c = CHR ''/'') (rev s))"

function sub_slash_digits :: "string \<Rightarrow> string" where
  \<comment> \<open>\<^verbatim>\<open>re.sub(r'/\d+', '/[ID]', s)\<close>: leftmost matches, each as long as possible.\<close>
  "sub_slash_digits [] = []"
| "sub_slash_digits (c # cs) =
     (case cs of
        d # ds \<Rightarrow>
          if c = CHR ''/'' \<and> is_digit d
          then ''/[ID]'' @ sub_slash_digits (dropWhile is_digit ds)
          else c # sub_slash_digits cs
      | [] \<Rightarrow> [c])"
  by pat_completeness auto
termination
proof (relation "measure length")
  show "wf (measure length)" by simp
next
  fix c d :: char and cs ds :: string
  assume "cs = d # ds"
  moreover have "length (dropWhile is_digit ds) \<le> length ds" by (rule length_dropWhile_le)
  ultimately show "(dropWhile is_digit ds, c # cs) \<in> measure length" by simp
qed auto

function sub_page_digits :: "string \<Rightarrow> string" where
  \<comment> \<open>\<^verbatim>\<open>re.sub(r'page=\d+', 'page=[NUM]', s)\<close>\<close>
  "sub_page_digits [] = []"
| "sub_page_digits (c # cs) =
     (case (if prefix ''page='' (c # cs) then drop 4 cs else []) of
        d # ds \<Rightarrow>
          if is_digit d
          then ''page=[NUM]'' @ sub_page_digits (dropWhile is_digit ds)
          else c # sub_page_digits cs
      | [] \<Rightarrow> c # sub_page_digits cs)"
  by pat_completeness auto
termination
proof (relation "measure length")
  show "wf (measure length)" by simp
next
  fix c :: char and cs d ds
  assume "(if prefix ''page='' (c # cs) then drop 4 cs else []) = d # ds"
  then have "d # ds = drop 4 cs" by (simp split: if_splits)
  then have "length (d # ds) \<le> length cs" by (metis diff_le_self length_drop)
  moreover have "length (dropWhile is_digit ds) \<le> length ds" by (rule length_dropWhile_le)
  ultimately show "(dropWhile is_digit ds, c # cs) \<in> measure length" by simp
qed auto

section \<open>\<^verbatim>\<open>urllib.parse.urlparse\<close>\<close>

text \<open>
  The standard library's \<^verbatim>\<open>urlparse\<close>, as CPython 3.12 computes it. A host in square
  brackets is checked by the library against the syntax of IPv6 literals, with
  \<^verbatim>\<open>ValueError\<close> when the check fails; the model does not decide that syntax and
  reports \<^verbatim>\<open>ValueError\<close> for every network location that has a bracket, so its
  \<open>Inr\<close> results are results of the library.
\<close>

datatype py_error = ValueError | OverflowError

record ParseResult =
  scheme :: string
  netloc :: string
  path :: string
  params :: string
  query :: string
  fragment :: string

definition is_scheme_char :: "char \<Rightarrow> bool" where
  "is_scheme_char c =
     (is_ascii_lower c \<or> is_ascii_upper c \<or> is_digit c \<or> c \<in> set ''+-.'')"

definition split_first :: "char \<Rightarrow> string \<Rightarrow> string \<times> string" where
  \<comment> \<open>\<^verbatim>\<open>s.split(sep, 1)\<close> when \<^verbatim>\<open>sep in s\<close>; otherwise the string and the empty string.\<close>
  "split_first sep s =
     (takeWhile (\<lambda>c. c \<noteq> sep) s, drop 1 (dropWhile (\<lambda>c. c \<noteq> sep) s))"

definition split_scheme :: "string \<Rightarrow> string \<times> string" where
  "split_scheme url =
     (let pre = takeWhile (\<lambda>c. c \<noteq> CHR '':'') url
      in if CHR '':'' \<in> set url \<and> list_all is_scheme_char pre
            \<and> (case pre of [] \<Rightarrow> False | c # _ \<Rightarrow> is_ascii_lower c \<or> is_ascii_upper c)
         then (lower pre, drop 1 (dropWhile (\<lambda>c. c \<noteq> CHR '':'') url))
         else ([], url))"

definition splitnetloc :: "string \<Rightarrow> string \<times> string" where
  \<comment> \<open>\<^verbatim>\<open>_splitnetloc(url, 2)\<close> under the test \<^verbatim>\<open>url[:2] == '//'\<close>\<close>
  "splitnetloc url =
     (if take 2 url = ''//''
      then (takeWhile (\<lambda>c. c \<notin> set ''/?#'') (drop 2 url),
            dropWhile (\<lambda>c. c \<notin> set ''/?#'') (drop 2 url))
      else ([], url))"

definition uses_params :: "string list" where
  "uses_params = [[], ''ftp'', ''hdl'', ''prospero'', ''http'', ''imap'', ''https'',
     ''shttp'', ''rtsp'', ''rtspu'', ''sip'', ''sips'', ''mms'', ''sftp'', ''tel'']"

definition splitparams :: "string \<Rightarrow> string \<times> string" where
  \<comment> \<open>\<^verbatim>\<open>_splitparams\<close>: the parameters of the last path segment.\<close>
  "splitparams url =
     (let seg = rev (takeWhile (\<lambda>c. c \<noteq> CHR ''/'') (rev url));
          before = take (length url - length seg) url
      in if CHR '';'' \<in> set seg
         then (before @ fst (split_first CHR '';'' seg), snd (split_first CHR '';'' seg))
         else (url, []))"

definition urlparse :: "string \<Rightarrow> py_error + ParseResult" where
  "urlparse url0 =
     (let url1 = dropWhile (\<lambda>c. (of_char c :: nat) \<le> 32) url0;
          url2 = filter (\<lambda>c. c \<notin> {CHR 0x09, CHR 0x0A, CHR 0x0D}) url1;
          (sch, url3) = split_scheme url2;
          (loc, url4) = splitnetloc url3;
          (url5, frag) = split_first CHR ''#'' url4;
          (url6, qry) = split_first CHR ''?'' url5;
          (pth, prm) = (if sch \<in> set uses_params \<and> CHR '';'' \<in> set url6
                        then splitparams url6 else (url6, []))
      in if CHR ''['' \<in> set loc \<or> CHR '']'' \<in> set loc then Inl ValueError
         else Inr \<lparr> scheme = sch, netloc = loc, path = pth, params = prm,
                    query = qry, fragment = frag \<rparr>)"

section \<open>\<^verbatim>\<open>IntelligentTaskScheduler.get_next_batch\<close>\<close>

text \<open>
  The scheduler's \<^verbatim>\<open>task_queues\<close>: one deque per priority, its head first. Tasks are
  opaque to \<^verbatim>\<open>get_next_batch\<close>, hence the type variable.
\<close>

type_synonym 'task task_queues = "ScrapingPriority \<Rightarrow> 'task list"

definition priority_allocation :: "(ScrapingPriority \<times> real) list" where
  \<comment> \<open>The dictionary literal, in its insertion order.\<close>
  "priority_allocation =
     [(CRITICAL, 0.4), (HIGH, 0.3), (MEDIUM, 0.2), (LOW, 0.1), (BACKGROUND, 0.0)]"

definition all_priorities :: "ScrapingPriority list" where
  \<comment> \<open>\<^verbatim>\<open>for priority in ScrapingPriority\<close>: the members in definition order.\<close>
  "all_priorities = [CRITICAL, HIGH, MEDIUM, LOW, BACKGROUND]"

fun drain_allocated :: "int \<Rightarrow> 'task list \<Rightarrow> 'task list \<Rightarrow> 'task list \<times> 'task list" where
  \<comment> \<open>\<^verbatim>\<open>while len(batch) < len(batch) + count and queue: batch.append(queue.popleft())\<close>;
     the result is the batch and what is left of the queue.\<close>
  "drain_allocated count batch [] = (batch, [])"
| "drain_allocated count batch (task # queue) =
     (if int (length batch) < int (length batch) + count
      then drain_allocated count (batch @ [task]) queue
      else (batch, task # queue))"

fun allocate_batch ::
  "int \<Rightarrow> (ScrapingPriority \<times> real) list \<Rightarrow> 'task list \<Rightarrow> 'task task_queues
     \<Rightarrow> 'task list \<times> 'task task_queues" where
  \<comment> \<open>The first \<^verbatim>\<open>for\<close> loop, over the items of \<^verbatim>\<open>priority_allocation\<close>.\<close>
  "allocate_batch batch_size [] batch queues = (batch, queues)"
| "allocate_batch batch_size ((priority, allocation) # rest) batch queues =
     (let count = py_int (real_of_int batch_size * allocation);
          (batch', queue') = drain_allocated count batch (queues priority)
      in allocate_batch batch_size rest batch' (queues(priority := queue')))"

fun fill_from_queue :: "int \<Rightarrow> 'task list \<Rightarrow> 'task list \<Rightarrow> int \<times> 'task list \<times> 'task list" where
  \<comment> \<open>\<^verbatim>\<open>while remaining_slots > 0 and queue: ...; remaining_slots -= 1\<close>\<close>
  "fill_from_queue remaining_slots batch [] = (remaining_slots, batch, [])"
| "fill_from_queue remaining_slots batch (task # queue) =
     (if remaining_slots > 0
      then fill_from_queue (remaining_slots - 1) (batch @ [task]) queue
      else (remaining_slots, batch, task # queue))"

fun fill_remaining ::
  "ScrapingPriority list \<Rightarrow> int \<Rightarrow> 'task list \<Rightarrow> 'task task_queues
     \<Rightarrow> 'task list \<times> 'task task_queues" where
  \<comment> \<open>The second \<^verbatim>\<open>for\<close> loop.\<close>
  "fill_remaining [] remaining_slots batch queues = (batch, queues)"
| "fill_remaining (priority # rest) remaining_slots batch queues =
     (let (remaining_slots', batch', queue') =
            fill_from_queue remaining_slots batch (queues priority)
      in fill_remaining rest remaining_slots' batch' (queues(priority := queue')))"

definition get_next_batch :: "'task task_queues \<Rightarrow> int \<Rightarrow> 'task list \<times> 'task task_queues" where
  "get_next_batch queues batch_size =
     (let (batch, queues1) = allocate_batch batch_size priority_allocation [] queues;
          remaining_slots = batch_size - int (length batch)
      in fill_remaining all_priorities remaining_slots batch queues1)"

section \<open>\<^verbatim>\<open>AdaptiveRateLimiter\<close>\<close>

record domain_stats =
  success_count :: int
  error_count :: int
  total_requests :: int
  avg_response_time :: real
  last_request_time :: real
  consecutive_errors :: int
  rate_limit_detected :: bool

definition default_domain_stats :: domain_stats where
  "default_domain_stats =
     \<lparr> success_count = 0, error_count = 0, total_requests = 0, avg_response_time = 0.0,
       last_request_time = 0.0, consecutive_errors = 0, rate_limit_detected = False \<rparr>"

type_synonym AdaptiveRateLimiter = "string \<rightharpoonup> domain_stats"

definition domain_stats_of :: "AdaptiveRateLimiter \<Rightarrow> string \<Rightarrow> domain_stats" where
  \<comment> \<open>\<^verbatim>\<open>self.domain_stats[domain]\<close> on the \<^verbatim>\<open>defaultdict\<close>\<close>
  "domain_stats_of rl domain =
     (case rl domain of Some s \<Rightarrow> s | None \<Rightarrow> default_domain_stats)"

definition base_delays :: "(string \<times> real) list" where
  "base_delays =
     [(''.gov'', 3.0), (''.edu'', 2.0), (''.org'', 1.5), (''who.int'', 4.0),
      (''nih.gov'', 3.5), (''cdc.gov'', 3.0), (''fda.gov'', 3.0)]"

fun determine_base_delay :: "(string \<times> real) list \<Rightarrow> string \<Rightarrow> real" where
  \<comment> \<open>The loop over \<^verbatim>\<open>base_delays.items()\<close> with its \<^verbatim>\<open>break\<close>; 1.0 when no pattern occurs.\<close>
  "determine_base_delay [] domain = 1.0"
| "determine_base_delay ((pattern, delay) # rest) domain =
     (if str_contains pattern domain then delay else determine_base_delay rest domain)"

definition float_overflow_bound :: real where
  \<comment> \<open>The least real that rounds to infinity as a double: halfway between the largest
     finite double, \<open>(2^53 - 1) * 2^971\<close>, and \<open>2^1024\<close>.\<close>
  "float_overflow_bound = (2 ^ 54 - 1) * 2 ^ 970"

definition float_pow :: "real \<Rightarrow> int \<Rightarrow> py_error + real" where
  \<comment> \<open>\<^verbatim>\<open>x ** n\<close> for a float \<open>x\<close> and an int \<open>n > 0\<close>: Python raises
     \<^verbatim>\<open>OverflowError\<close> when the power is too large for a double.\<close>
  "float_pow x n =
     (if float_overflow_bound \<le> x ^ nat n then Inl OverflowError else Inr (x ^ nat n))"

definition calculate_adaptive_delay :: "string \<Rightarrow> domain_stats \<Rightarrow> py_error + real" where
  "calculate_adaptive_delay domain stats =
     (let base_delay0 = determine_base_delay base_delays domain;
          base_delay1 =
            (if total_requests stats > 10
             then (let rate = real_of_int (success_count stats) / real_of_int (total_requests stats)
                   in if rate < 0.5 then base_delay0 * 3.0
                      else if rate < 0.7 then base_delay0 * 2.0
                      else if rate < 0.9 then base_delay0 * 1.5
                      else base_delay0 * 0.8)
             else base_delay0)
      in case (if consecutive_errors stats > 0
               then (case float_pow 1.5 (consecutive_errors stats) of
                       Inl e \<Rightarrow> Inl e
                     | Inr raised \<Rightarrow> Inr (base_delay1 * min 5.0 raised))
               else Inr base_delay1) of
           Inl e \<Rightarrow> Inl e
         | Inr base_delay2 \<Rightarrow>
             (let base_delay3 =
                    (if rate_limit_detected stats then base_delay2 * 10.0 else base_delay2);
                  base_delay4 =
                    (if avg_response_time stats > 10.0 then base_delay3 * 1.5
                     else if avg_response_time stats > 5.0 then base_delay3 * 1.2
                     else base_delay3)
              in Inr base_delay4))"

definition acquire_permit ::
  "AdaptiveRateLimiter \<Rightarrow> string \<Rightarrow> real \<Rightarrow> py_error + (bool \<times> AdaptiveRateLimiter)" where
  "acquire_permit rl url now =
     (case urlparse url of
        Inl e \<Rightarrow> Inl e
      | Inr parsed \<Rightarrow>
          (let domain = netloc parsed;
               stats = domain_stats_of rl domain
           in case calculate_adaptive_delay domain stats of
                Inl e \<Rightarrow> Inl e
              | Inr required_delay \<Rightarrow>
                  (let time_since_last = now - last_request_time stats
                   in if time_since_last < required_delay
                      then Inr (False, rl(domain \<mapsto> stats))
                      else Inr (True, rl(domain \<mapsto> stats\<lparr> last_request_time := now,
                                           total_requests := total_requests stats + 1 \<rparr>)))))"

definition record_stats :: "domain_stats \<Rightarrow> bool \<Rightarrow> real \<Rightarrow> int option \<Rightarrow> domain_stats" where
  \<comment> \<open>The body of \<^verbatim>\<open>record_request_result\<close> on the entry \<^verbatim>\<open>stats\<close> of the domain.\<close>
  "record_stats stats success response_time status_code =
     (let stats1 =
            (if success
             then stats\<lparr> success_count := success_count stats + 1,
                         consecutive_errors := 0,
                         rate_limit_detected := False \<rparr>
             else (let s = stats\<lparr> error_count := error_count stats + 1,
                                   consecutive_errors := consecutive_errors stats + 1 \<rparr>
                   in if status_code \<in> {Some 429, Some 503, Some 502} \<or> consecutive_errors s \<ge> 3
                      then s\<lparr> rate_limit_detected := True \<rparr> else s));
          total_responses = success_count stats1 + error_count stats1
      in if total_responses > 1
         then stats1\<lparr> avg_response_time :=
                (avg_response_time stats1 * real_of_int (total_responses - 1) + response_time)
                  / real_of_int total_responses \<rparr>
         else stats1\<lparr> avg_response_time := response_time \<rparr>)"

definition record_request_result ::
  "AdaptiveRateLimiter \<Rightarrow> string \<Rightarrow> bool \<Rightarrow> real \<Rightarrow> int option
     \<Rightarrow> py_error + AdaptiveRateLimiter" where
  "record_request_result rl url success response_time status_code =
     (case urlparse url of
        Inl e \<Rightarrow> Inl e
      | Inr parsed \<Rightarrow>
          (let domain = netloc parsed;
               stats = domain_stats_of rl domain
           in Inr (rl(domain \<mapsto> record_stats stats success response_time status_code))))"

section \<open>\<^verbatim>\<open>AdvancedDeduplicator\<close>\<close>

record AdvancedDeduplicator =
  content_hashes :: "string set"
  similarity_threshold :: real
  url_patterns :: "string set"

definition new_deduplicator :: AdvancedDeduplicator where
  \<comment> \<open>\<^verbatim>\<open>__init__\<close>\<close>
  "new_deduplicator =
     \<lparr> content_hashes = {}, similarity_threshold = 0.85, url_patterns = {} \<rparr>"

definition extract_url_pattern :: "string \<Rightarrow> py_error + string" where
  "extract_url_pattern url =
     (case urlparse url of
        Inl e \<Rightarrow> Inl e
      | Inr parsed \<Rightarrow>
          (let clean_path = rstrip_slash (path parsed);
               pattern_path1 = sub_slash_digits clean_path;
               pattern_path2 = sub_page_digits pattern_path1
           in Inr (netloc parsed @ pattern_path2)))"

definition is_similar_content :: "string \<Rightarrow> bool" where
  \<comment> \<open>The placeholder returns \<^verbatim>\<open>False\<close> after building a word set it does not use.\<close>
  "is_similar_content content = False"

definition is_duplicate_by_metadata :: "(string \<rightharpoonup> string) \<Rightarrow> bool" where
  \<comment> \<open>The placeholder returns \<^verbatim>\<open>False\<close> whatever the title.\<close>
  "is_duplicate_by_metadata metadata = False"

definition is_duplicate ::
  "(string \<Rightarrow> string) \<Rightarrow> AdvancedDeduplicator \<Rightarrow> string \<Rightarrow> string \<Rightarrow> (string \<rightharpoonup> string) option
     \<Rightarrow> py_error + (bool \<times> AdvancedDeduplicator)" where
  \<comment> \<open>\<open>md5\<close> stands for \<^verbatim>\<open>lambda c: hashlib.md5(c.encode()).hexdigest()\<close>. A metadata
     dictionary is falsy when it is \<^verbatim>\<open>None\<close> or empty.\<close>
  "is_duplicate md5 d content url metadata =
     (let content_hash = md5 content
      in if content_hash \<in> content_hashes d then Inr (True, d)
         else (case extract_url_pattern url of
                 Inl e \<Rightarrow> Inl e
               | Inr url_pattern \<Rightarrow>
                   if url_pattern \<in> url_patterns d then Inr (True, d)
                   else if is_similar_content content then Inr (True, d)
                   else if (case metadata of None \<Rightarrow> False
                            | Some m \<Rightarrow> m \<noteq> Map.empty \<and> is_duplicate_by_metadata m)
                        then Inr (True, d)
                   else Inr (False, d\<lparr> content_hashes := insert content_hash (content_hashes d),
                                        url_patterns := insert url_pattern (url_patterns d) \<rparr>)))"

section \<open>\<^verbatim>\<open>IntelligentRetrySystem.should_retry\<close>\<close>

fun max_retries :: "ScrapingTier \<Rightarrow> int" where
  \<comment> \<open>\<^verbatim>\<open>max_retries.get(task.tier, 3)\<close>\<close>
  "max_retries TIER_1_GOVERNMENT = 5"
| "max_retries TIER_2_INTERNATIONAL = 4"
| "max_retries TIER_3_ACADEMIC = 3"
| "max_retries _ = 3"

definition retry_on_errors :: "string list" where
  "retry_on_errors =
     [''timeout'', ''connection'', ''network'', ''502'', ''503'', ''504'', ''429'']"

definition should_retry :: "ScrapingTier \<Rightarrow> string \<Rightarrow> int \<Rightarrow> bool" where
  \<comment> \<open>The task enters through its tier and the exception through \<^verbatim>\<open>str(error)\<close>.\<close>
  "should_retry tier error attempt_number =
     (let tier_max_retries = max_retries tier
      in if attempt_number \<ge> tier_max_retries then False
         else (let error_str = lower error
               in list_ex (\<lambda>retry_error. str_contains retry_error error_str) retry_on_errors))"

section \<open>\<^verbatim>\<open>start_comprehensive_scraping\<close>\<close>

record ScrapingRequest =
  target_documents :: "int option"
  max_concurrent_workers :: "int option"
  tiers :: "string list option"
  quality_threshold :: "real option"

record operation =
  operation_id :: string
  status :: string
  started_at :: real
  config :: ScrapingRequest

text \<open>The module's globals, and the operation ids handed to \<^verbatim>\<open>background_tasks\<close>.\<close>

record api_state =
  phase1_system :: "ScrapingRequest option"
  current_operation :: "operation option"
  background_tasks :: "string list"

datatype HTTPException = HTTPException int string

record start_response =
  response_operation_id :: string
  response_status :: string
  response_config :: ScrapingRequest

definition int_truthy :: "int option \<Rightarrow> bool" where
  \<comment> \<open>Truth value of an \<^verbatim>\<open>Optional[int]\<close>: \<^verbatim>\<open>None\<close> and \<^verbatim>\<open>0\<close> are false.\<close>
  "int_truthy v = (case v of None \<Rightarrow> False | Some n \<Rightarrow> n \<noteq> 0)"

definition float_truthy :: "real option \<Rightarrow> bool" where
  \<comment> \<open>Truth value of an \<^verbatim>\<open>Optional[float]\<close>: \<^verbatim>\<open>None\<close> and \<^verbatim>\<open>0.0\<close> are false.\<close>
  "float_truthy v = (case v of None \<Rightarrow> False | Some x \<Rightarrow> x \<noteq> 0)"

definition phase1_default_config :: ScrapingRequest where
  \<comment> \<open>The entries of \<^verbatim>\<open>Phase1MedicalScraperSystem.phase1_config\<close> that the endpoint updates.\<close>
  "phase1_default_config =
     \<lparr> target_documents = Some 50000, max_concurrent_workers = Some 1000,
       tiers = None, quality_threshold = Some 0.6 \<rparr>"

definition start_comprehensive_scraping ::
  "api_state \<Rightarrow> ScrapingRequest \<Rightarrow> string \<Rightarrow> real \<Rightarrow> (HTTPException + start_response) \<times> api_state" where
  \<comment> \<open>\<open>stamp\<close> is \<^verbatim>\<open>datetime.utcnow().strftime('%Y%m%d_%H%M%S')\<close> and \<open>now\<close> the same
     instant. The constructor of the scraper system is taken not to raise, so the
     \<^verbatim>\<open>except\<close> branch (status 500) has no counterpart.\<close>
  "start_comprehensive_scraping st request stamp now =
     (if (case target_documents request of None \<Rightarrow> False
          | Some n \<Rightarrow> int_truthy (Some n) \<and> (n < 1 \<or> n > 1000000))
      then (Inl (HTTPException 422 ''target_documents must be between 1 and 1,000,000''), st)
      else if (case quality_threshold request of None \<Rightarrow> False
          | Some q \<Rightarrow> float_truthy (Some q) \<and> (q < 0.0 \<or> q > 1.0))
      then (Inl (HTTPException 422 ''quality_threshold must be between 0.0 and 1.0''), st)
      else if (case current_operation st of None \<Rightarrow> False | Some op \<Rightarrow> status op = ''running'')
      then (Inl (HTTPException 409 ''Scraping operation already in progress''), st)
      else
        (let system = (case phase1_system st of None \<Rightarrow> phase1_default_config | Some c \<Rightarrow> c);
             system' = system\<lparr> target_documents := target_documents request,
                                max_concurrent_workers := max_concurrent_workers request,
                                quality_threshold := quality_threshold request \<rparr>;
             oid = ''scraping_'' @ stamp;
             op = \<lparr> operation_id = oid, status = ''running'', started_at = now,
                    config = request \<rparr>
         in (Inr \<lparr> response_operation_id = oid, response_status = ''started'',
                    response_config = request \<rparr>,
             st\<lparr> phase1_system := Some system',
                 current_operation := Some op,
                 background_tasks := background_tasks st @ [oid] \<rparr>)))"

section \<open>Notions used to state the properties\<close>

subsection \<open>The factors of the adaptive delay\<close>

definition error_multiplier :: "int \<Rightarrow> real" where
  \<comment> \<open>The specification's factor for \<open>consecutive_errors\<close>, \<^verbatim>\<open>min(5.0, 1.5^n)\<close>; 1 when
     there are none.\<close>
  "error_multiplier n = (if n > 0 then min 5.0 (1.5 ^ nat n) else 1)"

definition power_overflows :: "int \<Rightarrow> bool" where
  \<comment> \<open>The states in which the source raises before it takes the minimum with 5.0.\<close>
  "power_overflows n = (n > 0 \<and> float_overflow_bound \<le> 1.5 ^ nat n)"

definition rate_limit_multiplier :: "bool \<Rightarrow> real" where
  "rate_limit_multiplier detected = (if detected then 10 else 1)"

definition response_time_multiplier :: "real \<Rightarrow> real" where
  "response_time_multiplier t = (if t > 10 then 1.5 else if t > 5 then 1.2 else 1)"

definition spec_success_rate_factor :: "real \<Rightarrow> real" where
  \<comment> \<open>The specification's factor: below 50% times 3.0, below 70% times 2.0, below 90% times
     1.5, otherwise times 0.8.\<close>
  "spec_success_rate_factor rate =
     (if rate < 0.5 then 3.0 else if rate < 0.7 then 2.0 else if rate < 0.9 then 1.5 else 0.8)"

definition spec_adaptive_delay :: "string \<Rightarrow> domain_stats \<Rightarrow> real" where
  \<comment> \<open>The delay as the specification composes it: the success-rate factor of
     \<open>success_count / total_requests\<close> is always among the factors.\<close>
  "spec_adaptive_delay domain stats =
     determine_base_delay base_delays domain
     * spec_success_rate_factor (real_of_int (success_count stats) / real_of_int (total_requests stats))
     * error_multiplier (consecutive_errors stats)
     * rate_limit_multiplier (rate_limit_detected stats)
     * response_time_multiplier (avg_response_time stats)"

subsection \<open>Histories of calls on one rate limiter\<close>

datatype limiter_call =
    Acquire string real
  | Record string bool real "int option"

fun run_limiter_calls ::
  "AdaptiveRateLimiter \<Rightarrow> limiter_call list \<Rightarrow> py_error + AdaptiveRateLimiter" where
  \<comment> \<open>The calls in order on one limiter; the first exception ends the history.\<close>
  "run_limiter_calls rl [] = Inr rl"
| "run_limiter_calls rl (Acquire url now # calls) =
     (case acquire_permit rl url now of
        Inl e \<Rightarrow> Inl e
      | Inr (granted, rl') \<Rightarrow> run_limiter_calls rl' calls)"
| "run_limiter_calls rl (Record url success response_time status_code # calls) =
     (case record_request_result rl url success response_time status_code of
        Inl e \<Rightarrow> Inl e
      | Inr rl' \<Rightarrow> run_limiter_calls rl' calls)"

fun recorded_response_times :: "string \<Rightarrow> limiter_call list \<Rightarrow> real list" where
  \<comment> \<open>The response times recorded for a domain, oldest first.\<close>
  "recorded_response_times domain [] = []"
| "recorded_response_times domain (Acquire url now # calls) =
     recorded_response_times domain calls"
| "recorded_response_times domain (Record url success response_time status_code # calls) =
     (if map_sum id netloc (urlparse url) = Inr domain
      then response_time # recorded_response_times domain calls
      else recorded_response_times domain calls)"

definition stats_agree :: "domain_stats option \<Rightarrow> real list \<Rightarrow> bool" where
  \<comment> \<open>The invariant that ties a domain's entry to the response times recorded for it.\<close>
  "stats_agree entry ts =
     (case entry of
        None \<Rightarrow> ts = []
      | Some s \<Rightarrow>
          success_count s + error_count s = int (length ts)
          \<and> avg_response_time s * real (length ts) = sum_list ts)"

subsection \<open>URLs with a query or a fragment\<close>

definition has_delimiter :: "string \<Rightarrow> bool" where
  \<comment> \<open>The string has a question mark or a hash sign: what follows it in a URL belongs to
     the query or to the fragment.\<close>
  "has_delimiter b = (CHR ''?'' \<in> set b \<or> CHR ''#'' \<in> set b)"

definition strip_unsafe :: "string \<Rightarrow> string" where
  \<comment> \<open>The first two steps of \<open>urlparse\<close>: leading control characters and spaces are
     dropped, then tabs and line breaks are removed.\<close>
  "strip_unsafe url0 =
     filter (\<lambda>c. c \<notin> {CHR 0x09, CHR 0x0A, CHR 0x0D})
       (dropWhile (\<lambda>c. (of_char c :: nat) \<le> 32) url0)"

subsection \<open>The retry loop of \<^verbatim>\<open>_process_single_url_with_retry\<close>\<close>

text \<open>
  What one call of \<^verbatim>\<open>scraper.extract_content_from_url\<close> does: it returns a result with
  its \<^verbatim>\<open>success\<close> flag and \<^verbatim>\<open>error_details\<close>, or raises an exception with a message.
\<close>

datatype extraction_outcome =
    Returned bool "string option"
  | Raised string

definition error_text :: "string option \<Rightarrow> string" where
  \<comment> \<open>\<^verbatim>\<open>str(Exception(error_details or "Unknown error"))\<close>\<close>
  "error_text details =
     (case details of None \<Rightarrow> ''Unknown error''
      | Some e \<Rightarrow> if e = [] then ''Unknown error'' else e)"

function retry_loop ::
  "ScrapingTier \<Rightarrow> (int \<Rightarrow> extraction_outcome) \<Rightarrow> int \<Rightarrow> string option
     \<Rightarrow> bool \<times> int \<times> string option" where
  \<comment> \<open>The \<^verbatim>\<open>while attempt < 5\<close> loop from the state \<open>(attempt, last_error)\<close>. The result
     is the success flag, the value of \<open>attempt\<close> at the exit and the last error. The
     statistics the loop reports to the retry system and to the load balancer, and its
     sleeps, are left out.\<close>
  "retry_loop tier scraper attempt last_error =
     (if attempt < 5
      then (case scraper attempt of
              Returned True details \<Rightarrow> (True, attempt, last_error)
            | Returned False details \<Rightarrow>
                if \<not> should_retry tier (error_text details) attempt
                then (False, attempt, Some (error_text details))
                else retry_loop tier scraper (attempt + 1) (Some (error_text details))
            | Raised e \<Rightarrow>
                if \<not> should_retry tier e attempt
                then (False, attempt, Some e)
                else retry_loop tier scraper (attempt + 1) (Some e))
      else (False, attempt, last_error))"
  by pat_completeness auto
termination
  by (relation "measure (\<lambda>(tier, scraper, attempt, last_error). nat (5 - attempt))") auto

declare retry_loop.simps [simp del]

definition process_single_url_with_retry ::
  "ScrapingTier \<Rightarrow> (int \<Rightarrow> extraction_outcome) \<Rightarrow> bool \<times> int \<times> string option" where
  "process_single_url_with_retry tier scraper = retry_loop tier scraper 0 None"

subsection \<open>The retry contract of the specification\<close>

text \<open>
  The specification classifies an error by what went wrong; the source sees the text of
  the exception only. A fetch error is modelled with both.
\<close>

datatype error_kind =
    Timeout
  | ConnectionReset
  | ConnectionRefused
  | DnsFailure
  | HttpStatus int
  | OtherError

record fetch_error =
  kind :: error_kind
  message :: string

fun spec_retryable :: "error_kind \<Rightarrow> bool" where
  \<comment> \<open>Retryable in the specification's words: timeout, connection reset or refused, DNS
     failure, HTTP 429, 502, 503 or 504.\<close>
  "spec_retryable Timeout = True"
| "spec_retryable ConnectionReset = True"
| "spec_retryable ConnectionRefused = True"
| "spec_retryable DnsFailure = True"
| "spec_retryable (HttpStatus code) = (code = 429 \<or> code = 502 \<or> code = 503 \<or> code = 504)"
| "spec_retryable OtherError = False"

definition spec_max_retries :: "ScrapingTier \<Rightarrow> int" where
  \<comment> \<open>5 for the government tier, 4 for the international tier, 3 otherwise.\<close>
  "spec_max_retries tier =
     (if tier = TIER_1_GOVERNMENT then 5 else if tier = TIER_2_INTERNATIONAL then 4 else 3)"

definition spec_should_retry :: "ScrapingTier \<Rightarrow> fetch_error \<Rightarrow> int \<Rightarrow> bool" where
  \<comment> \<open>The contract as the specification states it.\<close>
  "spec_should_retry tier err attempt =
     (attempt < spec_max_retries tier \<and> spec_retryable (kind err))"

definition has_retry_keyword :: "string \<Rightarrow> bool" where
  \<comment> \<open>The test the source makes on an error: the lower-cased text has one of seven words
     as a substring.\<close>
  "has_retry_keyword error =
     (str_contains ''timeout'' (lower error) \<or> str_contains ''connection'' (lower error)
      \<or> str_contains ''network'' (lower error) \<or> str_contains ''502'' (lower error)
      \<or> str_contains ''503'' (lower error) \<or> str_contains ''504'' (lower error)
      \<or> str_contains ''429'' (lower error))"

section \<open>Properties of the load balancer\<close>

lemma clamp_10_500: "10 \<le> max 10 (min (x::int) 500) \<and> max 10 (min x 500) \<le> 500"
  by simp

lemma optimal_concurrency_stored:
  "optimal_concurrency (s\<lparr> optimal_concurrency := x, last_adjustment := t \<rparr>) = x"
  by simp

text \<open>
  C3. For every tier, every stored tier statistics (any success rate, any average
  response time) and every CPU and memory reading, the concurrency returned by
  \<open>calculate_optimal_concurrency\<close> is an integer between 10 and 500, and the same value
  is stored as the tier's \<open>optimal_concurrency\<close>.
\<close>

theorem calculate_optimal_concurrency_bounds:
  "10 \<le> snd (calculate_optimal_concurrency lb tier m now)
   \<and> snd (calculate_optimal_concurrency lb tier m now) \<le> 500
   \<and> map_option optimal_concurrency (fst (calculate_optimal_concurrency lb tier m now) tier)
       = Some (snd (calculate_optimal_concurrency lb tier m now))"
  unfolding calculate_optimal_concurrency_def Let_def
  by (simp only: snd_conv fst_conv fun_upd_same option.map optimal_concurrency_stored
        clamp_10_500 simp_thms)

theorem calculate_optimal_concurrency_bounds_witness:
  "10 \<le> snd (calculate_optimal_concurrency Map.empty TIER_3_ACADEMIC
       \<lparr> tasks_queued = 0, tasks_processing = 0, tasks_completed = 0, tasks_failed = 0,
         avg_processing_time = 0, peak_concurrent_tasks = 0, total_content_extracted_mb = 0,
         current_processing_rate = 0, memory_usage_mb = 9000, cpu_usage_percent = 95,
         network_bandwidth_mbps = 0 \<rparr> 0)
   \<and> snd (calculate_optimal_concurrency Map.empty TIER_3_ACADEMIC
       \<lparr> tasks_queued = 0, tasks_processing = 0, tasks_completed = 0, tasks_failed = 0,
         avg_processing_time = 0, peak_concurrent_tasks = 0, total_content_extracted_mb = 0,
         current_processing_rate = 0, memory_usage_mb = 9000, cpu_usage_percent = 95,
         network_bandwidth_mbps = 0 \<rparr> 0) \<le> 500"
  using calculate_optimal_concurrency_bounds [of Map.empty TIER_3_ACADEMIC
       "\<lparr> tasks_queued = 0, tasks_processing = 0, tasks_completed = 0, tasks_failed = 0,
         avg_processing_time = 0, peak_concurrent_tasks = 0, total_content_extracted_mb = 0,
         current_processing_rate = 0, memory_usage_mb = 9000, cpu_usage_percent = 95,
         network_bandwidth_mbps = 0 \<rparr>" 0]
  by blast

text \<open>
  With the default statistics of a tier never seen before, a CPU reading of 95 percent and
  9000 MB of memory, the academic tier gets \<open>int (120 * 0.8 * 0.8 * 0.5) = 38\<close>.
\<close>

lemma calculate_optimal_concurrency_example:
  "snd (calculate_optimal_concurrency Map.empty TIER_3_ACADEMIC
     \<lparr> tasks_queued = 0, tasks_processing = 0, tasks_completed = 0, tasks_failed = 0,
       avg_processing_time = 0, peak_concurrent_tasks = 0, total_content_extracted_mb = 0,
       current_processing_rate = 0, memory_usage_mb = 9000, cpu_usage_percent = 95,
       network_bandwidth_mbps = 0 \<rparr> 0) = 38"
  unfolding calculate_optimal_concurrency_def calculate_system_resource_multiplier_def Let_def
  by (simp add: tier_performance_def default_tier_stats_def py_int_def)

lemma update_tier_performance_entry:
  "update_tier_performance lb tier rt success load now tier =
     Some ((tier_performance lb tier now)
       \<lparr> tier_avg_response_time :=
           0.1 * rt + 0.9 * tier_avg_response_time (tier_performance lb tier now),
         success_rate :=
           0.1 * (if success then 1 else 0) + 0.9 * success_rate (tier_performance lb tier now),
         current_load := load \<rparr>)"
  unfolding update_tier_performance_def Let_def
  by (cases success) simp_all

text \<open>
  C7. Every call of \<open>update_tier_performance\<close> replaces the tier's average response time
  by \<open>0.1 * response_time + 0.9 * old\<close> and its success rate by
  \<open>0.1 * sample + 0.9 * old\<close>, where the sample is 1 for a success and 0 for a failure.
  From a success rate of 0.8 a success gives 0.82 and a failure gives 0.72.
\<close>

theorem update_tier_performance_ema:
  "map_option tier_avg_response_time (update_tier_performance lb tier rt success load now tier)
     = Some (0.1 * rt + 0.9 * tier_avg_response_time (tier_performance lb tier now))
   \<and> map_option success_rate (update_tier_performance lb tier rt success load now tier)
     = Some (0.1 * (if success then 1 else 0) + 0.9 * success_rate (tier_performance lb tier now))
   \<and> map_option success_rate
        (update_tier_performance (lb(tier \<mapsto> s\<lparr> success_rate := 0.8 \<rparr>)) tier rt True load now tier)
     = Some 0.82
   \<and> map_option success_rate
        (update_tier_performance (lb(tier \<mapsto> s\<lparr> success_rate := 0.8 \<rparr>)) tier rt False load now tier)
     = Some 0.72"
  by (simp add: update_tier_performance_entry tier_performance_def)

theorem update_tier_performance_ema_witness:
  "map_option success_rate
     (update_tier_performance Map.empty TIER_1_GOVERNMENT 2 True 7 0 TIER_1_GOVERNMENT) = Some 0.82
   \<and> map_option tier_avg_response_time
     (update_tier_performance Map.empty TIER_1_GOVERNMENT 2 True 7 0 TIER_1_GOVERNMENT) = Some 4.7"
  using update_tier_performance_ema [of Map.empty TIER_1_GOVERNMENT 2 True 7 0]
  by (simp add: tier_performance_def default_tier_stats_def)

section \<open>Properties of the adaptive delay\<close>

subsection \<open>Where \<^verbatim>\<open>1.5 ** consecutive_errors\<close> overflows\<close>

lemma three_halves_306: "(3/2::real) ^ 306 < 2 ^ 179"
proof -
  have n: "(3::nat) ^ 306 < 2 ^ 179 * 2 ^ 306" by simp
  have "real ((3::nat) ^ 306) < real (2 ^ 179 * 2 ^ 306)" using n by (rule less_imp_of_nat_less)
  then have "(3::real) ^ 306 < 2 ^ 179 * 2 ^ 306"
    by (simp only: of_nat_power of_nat_mult of_nat_numeral)
  then have "(3::real) ^ 306 / 2 ^ 306 < 2 ^ 179"
    by (simp only: pos_divide_less_eq zero_less_power zero_less_numeral)
  then show ?thesis by (simp only: power_divide)
qed

lemma three_halves_220: "(3/2::real) ^ 220 \<le> (2 ^ 54 - 1) * 2 ^ 75"
proof -
  have n: "(3::nat) ^ 220 \<le> (2 ^ 54 - 1) * 2 ^ 75 * 2 ^ 220" by simp
  have "real ((3::nat) ^ 220) \<le> real ((2 ^ 54 - 1) * 2 ^ 75 * 2 ^ 220)"
    using n by (rule iffD2 [OF of_nat_le_iff])
  moreover have "real ((3::nat) ^ 220) = 3 ^ 220" by (simp only: of_nat_power of_nat_numeral)
  moreover have "real ((2 ^ 54 - 1) * 2 ^ 75 * 2 ^ 220) = (2 ^ 54 - 1) * 2 ^ 75 * 2 ^ 220"
    by (simp only: of_nat_mult of_nat_power of_nat_numeral of_nat_diff one_le_numeral
          one_le_power of_nat_1)
  ultimately have "(3::real) ^ 220 \<le> (2 ^ 54 - 1) * 2 ^ 75 * 2 ^ 220" by (simp only:)
  then have "(3::real) ^ 220 / 2 ^ 220 \<le> (2 ^ 54 - 1) * 2 ^ 75"
    by (simp only: pos_divide_le_eq zero_less_power zero_less_numeral)
  then show ?thesis by (simp only: power_divide)
qed

lemma three_halves_53: "(2::real) ^ 31 < (3/2) ^ 53"
proof -
  have n: "(2::nat) ^ 31 * 2 ^ 53 < 3 ^ 53" by simp
  have "real ((2::nat) ^ 31 * 2 ^ 53) < real (3 ^ 53)" using n by (rule less_imp_of_nat_less)
  then have "(2::real) ^ 31 * 2 ^ 53 < 3 ^ 53"
    by (simp only: of_nat_power of_nat_mult of_nat_numeral)
  then have "(2::real) ^ 31 < 3 ^ 53 / 2 ^ 53"
    by (simp only: pos_less_divide_eq zero_less_power zero_less_numeral)
  then show ?thesis by (simp only: power_divide)
qed

lemma three_halves_1750: "(3/2::real) ^ 1750 < (2 ^ 54 - 1) * 2 ^ 970"
proof -
  have e: "(1750::nat) = 306 * 5 + 220" by simp
  have "(3/2::real) ^ 1750 = ((3/2) ^ 306) ^ 5 * (3/2) ^ 220"
    by (simp only: e power_add power_mult)
  also have "\<dots> < (2 ^ 179) ^ 5 * ((2 ^ 54 - 1) * 2 ^ 75)"
  proof (rule mult_less_le_imp_less)
    show "((3/2::real) ^ 306) ^ 5 < (2 ^ 179) ^ 5"
      by (rule power_strict_mono [OF three_halves_306]) simp_all
    show "(3/2::real) ^ 220 \<le> (2 ^ 54 - 1) * 2 ^ 75" by (rule three_halves_220)
    show "0 \<le> ((3/2::real) ^ 306) ^ 5" by (rule zero_le_power) (rule zero_le_power, simp)
    show "0 < (3/2::real) ^ 220" by (rule zero_less_power) simp
  qed
  also have "\<dots> = (2 ^ 54 - 1) * (((2::real) ^ 179) ^ 5 * 2 ^ 75)"
    by (simp only: mult.commute mult.left_commute)
  also have "((2::real) ^ 179) ^ 5 * 2 ^ 75 = 2 ^ (179 * 5 + 75)"
    by (simp only: power_add power_mult)
  also have "179 * 5 + 75 = (970::nat)" by simp
  finally show ?thesis .
qed

lemma three_halves_1751: "(2 ^ 54 - 1) * 2 ^ 970 \<le> (3/2::real) ^ 1751"
proof -
  have e: "(1751::nat) = 53 * 33 + 2" by simp
  have "(2 ^ 54 - 1) * (2::real) ^ 970 \<le> 2 ^ 54 * 2 ^ 970"
    by (rule mult_right_mono) simp_all
  also have "\<dots> = (2::real) ^ (54 + 970)" by (simp only: power_add)
  also have "(54 + 970 :: nat) = 31 * 33 + 1" by simp
  also have "(2::real) ^ (31 * 33 + 1) = (2 ^ 31) ^ 33 * 2"
    by (simp only: power_add power_mult power_one_right)
  also have "\<dots> \<le> ((3/2) ^ 53) ^ 33 * (3/2) ^ 2"
  proof (rule mult_mono)
    show "((2::real) ^ 31) ^ 33 \<le> ((3/2) ^ 53) ^ 33"
      by (rule power_mono [OF less_imp_le [OF three_halves_53]]) simp
    show "(2::real) \<le> (3/2) ^ 2" by (simp add: power2_eq_square)
    show "0 \<le> ((3/2::real) ^ 53) ^ 33" by (rule zero_le_power) (rule zero_le_power, simp)
    show "(0::real) \<le> 2" by simp
  qed
  also have "\<dots> = (3/2::real) ^ 1751" by (simp only: e power_add power_mult)
  finally show ?thesis .
qed

lemma one_and_a_half: "(1.5::real) = 3/2"
  by simp

text \<open>The power overflows from 1751 consecutive errors on, and not before.\<close>

lemma power_overflows_iff: "power_overflows n \<longleftrightarrow> n \<ge> 1751"
proof (cases "n \<ge> 1751")
  case True
  then have "nat n \<ge> 1751" by simp
  then have "(3/2::real) ^ 1751 \<le> (3/2) ^ nat n" by (intro power_increasing) simp_all
  with three_halves_1751 have "(2 ^ 54 - 1) * 2 ^ 970 \<le> (3/2::real) ^ nat n" by (rule order_trans)
  with True show ?thesis
    by (simp only: power_overflows_def float_overflow_bound_def one_and_a_half) simp
next
  case False
  then have "nat n \<le> 1750" by simp
  then have "(3/2::real) ^ nat n \<le> (3/2) ^ 1750" by (intro power_increasing) simp_all
  then have "(3/2::real) ^ nat n < (2 ^ 54 - 1) * 2 ^ 970"
    using three_halves_1750 by (rule le_less_trans)
  then have "\<not> (2 ^ 54 - 1) * 2 ^ 970 \<le> (3/2::real) ^ nat n" by (simp only: not_le)
  with False show ?thesis
    by (simp only: power_overflows_def float_overflow_bound_def one_and_a_half) simp
qed

lemma float_pow_cases:
  "n > 0 \<Longrightarrow>
   float_pow 1.5 n = (if power_overflows n then Inl OverflowError else Inr (1.5 ^ nat n))"
  by (simp only: float_pow_def power_overflows_def) simp

subsection \<open>The delay as a product\<close>

lemma if_times_factor:
  "(if c then x * a else x) = x * (if c then a else (1::real))"
  "(if c then x * a else x * b) = x * (if c then a else b)"
  "(if c then x * a else if c2 then x * b else x) = x * (if c then a else if c2 then b else 1)"
  "(if c then x * a else if c2 then x * b else if c3 then x * d else x * e)
     = x * (if c then a else if c2 then b else if c3 then d else e)"
  by simp_all

lemma decimal_literals: "(100 / 10 :: real) = 10" "(50 / 10 :: real) = 5"
  by simp_all

lemma calculate_adaptive_delay_product:
  "calculate_adaptive_delay domain stats =
     (if power_overflows (consecutive_errors stats) then Inl OverflowError
      else Inr (determine_base_delay base_delays domain
        * (if total_requests stats > 10
           then spec_success_rate_factor
                  (real_of_int (success_count stats) / real_of_int (total_requests stats))
           else 1)
        * error_multiplier (consecutive_errors stats)
        * rate_limit_multiplier (rate_limit_detected stats)
        * response_time_multiplier (avg_response_time stats)))"
proof (cases "consecutive_errors stats > 0")
  case False
  then have no: "\<not> power_overflows (consecutive_errors stats)"
    by (simp add: power_overflows_def)
  show ?thesis
    unfolding calculate_adaptive_delay_def Let_def spec_success_rate_factor_def
      error_multiplier_def rate_limit_multiplier_def response_time_multiplier_def
    by (simp only: False no if_False sum.case if_times_factor decimal_literals mult_1_right)
next
  case True
  note pw = float_pow_cases [OF True]
  show ?thesis
  proof (cases "power_overflows (consecutive_errors stats)")
    case over: True
    show ?thesis
      unfolding calculate_adaptive_delay_def Let_def
      by (simp only: True over pw if_True sum.case)
  next
    case no: False
    show ?thesis
      unfolding calculate_adaptive_delay_def Let_def spec_success_rate_factor_def
        error_multiplier_def rate_limit_multiplier_def response_time_multiplier_def
      by (simp only: True no pw if_True if_False sum.case if_times_factor decimal_literals
            mult.assoc)
  qed
qed

lemma determine_base_delay_pos: "0 < determine_base_delay base_delays domain"
  by (simp add: base_delays_def)

lemma error_multiplier_pos: "0 < error_multiplier n"
  by (simp add: error_multiplier_def)

lemma error_multiplier_mono: "m \<le> n \<Longrightarrow> error_multiplier m \<le> error_multiplier n"
proof (cases "m > 0")
  case True
  assume le: "m \<le> n"
  from True le have "nat m \<le> nat n" by simp
  then have "(1.5::real) ^ nat m \<le> 1.5 ^ nat n" by (intro power_increasing) simp_all
  then have "min 5.0 ((1.5::real) ^ nat m) \<le> min 5.0 (1.5 ^ nat n)" by (rule min.mono[OF order_refl])
  with True le show ?thesis by (simp add: error_multiplier_def)
next
  case False
  have "(1::real) \<le> 1.5 ^ nat n" by (rule one_le_power) simp
  then have "(1::real) \<le> min 5.0 (1.5 ^ nat n)" by simp
  with False show ?thesis by (simp add: error_multiplier_def)
qed

lemma error_multiplier_capped: "n \<ge> 4 \<Longrightarrow> error_multiplier n = 5"
proof -
  assume n: "n \<ge> 4"
  then have "nat n \<ge> 4" by simp
  then have "(1.5::real) ^ 4 \<le> 1.5 ^ nat n" by (intro power_increasing) simp_all
  moreover have "(5::real) \<le> 1.5 ^ 4" by (simp add: power4_eq_xxxx)
  ultimately have "(5::real) \<le> 1.5 ^ nat n" by (rule order_trans [rotated])
  with n show ?thesis by (simp add: error_multiplier_def min_def)
qed

lemma spec_success_rate_factor_pos: "0 < spec_success_rate_factor r"
  by (simp add: spec_success_rate_factor_def)

lemma response_time_multiplier_pos: "0 < response_time_multiplier t"
  by (simp add: response_time_multiplier_def)

text \<open>
  As long as \<open>consecutive_errors\<close> stays at or below 1750 the source returns a delay, the
  delay does not decrease when \<open>consecutive_errors\<close> grows, and setting
  \<open>rate_limit_detected\<close> multiplies it by 10.
\<close>

lemma adaptive_delay_monotone_below_overflow:
  assumes "m \<le> n" and "n \<le> 1750"
  shows "\<exists>dm dn. calculate_adaptive_delay domain (stats\<lparr> consecutive_errors := m \<rparr>) = Inr dm
           \<and> calculate_adaptive_delay domain (stats\<lparr> consecutive_errors := n \<rparr>) = Inr dn
           \<and> dm \<le> dn"
proof -
  define b where "b = determine_base_delay base_delays domain
     * (if total_requests stats > 10
        then spec_success_rate_factor
               (real_of_int (success_count stats) / real_of_int (total_requests stats))
        else 1)"
  define r where "r = rate_limit_multiplier (rate_limit_detected stats)
     * response_time_multiplier (avg_response_time stats)"
  have b: "0 \<le> b"
    unfolding b_def using determine_base_delay_pos [of domain] spec_success_rate_factor_pos
    by (simp add: less_imp_le)
  have r: "0 \<le> r"
    unfolding r_def using response_time_multiplier_pos [of "avg_response_time stats"]
    by (simp add: rate_limit_multiplier_def less_imp_le)
  have eq: "calculate_adaptive_delay domain (stats\<lparr> consecutive_errors := k \<rparr>)
              = Inr (b * error_multiplier k * r)" if "k \<le> 1750" for k
    using that by (simp add: calculate_adaptive_delay_product power_overflows_iff b_def r_def)
  have "b * error_multiplier m \<le> b * error_multiplier n"
    by (rule mult_left_mono [OF error_multiplier_mono [OF assms(1)] b])
  then have "b * error_multiplier m * r \<le> b * error_multiplier n * r"
    by (rule mult_right_mono [OF _ r])
  moreover from assms have "m \<le> 1750" by simp
  ultimately show ?thesis using eq [of m] eq [of n] assms(2) by simp
qed

lemma adaptive_delay_rate_limit_below_overflow:
  assumes "consecutive_errors stats \<le> 1750"
  shows "\<exists>d. calculate_adaptive_delay domain (stats\<lparr> rate_limit_detected := False \<rparr>) = Inr d
           \<and> calculate_adaptive_delay domain (stats\<lparr> rate_limit_detected := True \<rparr>)
              = Inr (10 * d)"
  using assms
  by (simp add: calculate_adaptive_delay_product power_overflows_iff rate_limit_multiplier_def)

text \<open>
  C4, evaluated. For a domain with 1751 consecutive errors the source computes no delay:
  \<^verbatim>\<open>1.5 ** 1751\<close> is evaluated before the minimum with 5.0 is taken and raises
  \<^verbatim>\<open>OverflowError\<close>. With 1750 consecutive errors the factor is 5, the cap the source
  aims at, and the delay for \<^verbatim>\<open>example.com\<close> is 5 seconds.
\<close>

theorem calculate_adaptive_delay_overflow:
  "calculate_adaptive_delay ''example.com'' (default_domain_stats\<lparr> consecutive_errors := 1751 \<rparr>)
     = Inl OverflowError
   \<and> calculate_adaptive_delay ''example.com'' (default_domain_stats\<lparr> consecutive_errors := 1750 \<rparr>)
     = Inr 5"
  by (simp add: calculate_adaptive_delay_product power_overflows_iff error_multiplier_capped
        base_delays_def default_domain_stats_def rate_limit_multiplier_def
        response_time_multiplier_def)

text \<open>
  The specification's delay always has a success-rate factor. A domain with 5 requests, all
  of them successful, would have the factor 0.8; the code applies no factor to it.
\<close>

theorem success_rate_factor_counterexample:
  "calculate_adaptive_delay ''example.com''
       (default_domain_stats\<lparr> success_count := 5, total_requests := 5 \<rparr>) = Inr 1
   \<and> spec_adaptive_delay ''example.com''
       (default_domain_stats\<lparr> success_count := 5, total_requests := 5 \<rparr>) = 0.8
   \<and> calculate_adaptive_delay ''example.com''
       (default_domain_stats\<lparr> success_count := 5, total_requests := 5 \<rparr>)
     \<noteq> Inr (spec_adaptive_delay ''example.com''
              (default_domain_stats\<lparr> success_count := 5, total_requests := 5 \<rparr>))"
  by (simp add: calculate_adaptive_delay_product power_overflows_iff spec_adaptive_delay_def
        base_delays_def default_domain_stats_def error_multiplier_def rate_limit_multiplier_def
        response_time_multiplier_def spec_success_rate_factor_def)

text \<open>
  C5, amended. For a domain with more than 10 total requests the delay is the base delay
  times the success-rate factor of \<open>success_count / total_requests\<close> (3.0 below 50%, 2.0
  below 70%, 1.5 below 90%, otherwise 0.8) times the other factors; for a domain with at
  most 10 total requests the delay has no success-rate factor. This holds of every delay
  the source returns; it returns none where the power of the consecutive-error step
  overflows.
\<close>

theorem adaptive_delay_success_rate_factor:
  "(total_requests stats > 10 \<longrightarrow>
      calculate_adaptive_delay domain stats =
        (if power_overflows (consecutive_errors stats) then Inl OverflowError
         else Inr (spec_adaptive_delay domain stats)))
   \<and> (total_requests stats \<le> 10 \<longrightarrow>
      calculate_adaptive_delay domain stats =
        (if power_overflows (consecutive_errors stats) then Inl OverflowError
         else Inr (determine_base_delay base_delays domain
                * error_multiplier (consecutive_errors stats)
                * rate_limit_multiplier (rate_limit_detected stats)
                * response_time_multiplier (avg_response_time stats))))"
  by (simp add: calculate_adaptive_delay_product spec_adaptive_delay_def)

theorem adaptive_delay_success_rate_factor_witness:
  "total_requests (default_domain_stats\<lparr> success_count := 12, total_requests := 20 \<rparr>) > 10
   \<and> calculate_adaptive_delay ''example.com''
        (default_domain_stats\<lparr> success_count := 12, total_requests := 20 \<rparr>) = Inr 2
   \<and> spec_adaptive_delay ''example.com''
        (default_domain_stats\<lparr> success_count := 12, total_requests := 20 \<rparr>) = 2
   \<and> total_requests (default_domain_stats\<lparr> success_count := 5, total_requests := 5 \<rparr>) \<le> 10
   \<and> calculate_adaptive_delay ''example.com''
        (default_domain_stats\<lparr> success_count := 5, total_requests := 5 \<rparr>) = Inr 1"
  using adaptive_delay_success_rate_factor
          [of "default_domain_stats\<lparr> success_count := 12, total_requests := 20 \<rparr>" "''example.com''"]
        adaptive_delay_success_rate_factor
          [of "default_domain_stats\<lparr> success_count := 5, total_requests := 5 \<rparr>" "''example.com''"]
  by (simp add: spec_adaptive_delay_def base_delays_def power_overflows_iff
        default_domain_stats_def error_multiplier_def rate_limit_multiplier_def
        response_time_multiplier_def spec_success_rate_factor_def)

section \<open>Properties of \<^verbatim>\<open>record_request_result\<close>\<close>

lemma record_stats_success:
  "consecutive_errors (record_stats s True rt sc) = 0"
  "\<not> rate_limit_detected (record_stats s True rt sc)"
  unfolding record_stats_def Let_def by simp_all

lemma record_stats_failure:
  "consecutive_errors (record_stats s False rt sc) = consecutive_errors s + 1"
  "rate_limit_detected (record_stats s False rt sc) =
     (sc \<in> {Some 429, Some 502, Some 503} \<or> consecutive_errors s + 1 \<ge> 3 \<or> rate_limit_detected s)"
  unfolding record_stats_def Let_def by auto

lemma record_stats_counts:
  "success_count (record_stats s b rt sc) + error_count (record_stats s b rt sc)
     = success_count s + error_count s + 1"
  unfolding record_stats_def Let_def by (cases b) simp_all

lemma record_stats_avg:
  "avg_response_time (record_stats s b rt sc) =
     (if success_count s + error_count s + 1 > 1
      then (avg_response_time s * real_of_int (success_count s + error_count s) + rt)
             / real_of_int (success_count s + error_count s + 1)
      else rt)"
  unfolding record_stats_def Let_def by (cases b) (simp_all add: add.commute add.left_commute)

lemma stats_agree_record_stats:
  assumes "success_count s + error_count s = int (length ts)"
    and "avg_response_time s * real (length ts) = sum_list ts"
  shows "stats_agree (Some (record_stats s b rt sc)) (ts @ [rt])"
proof -
  let ?n = "length ts"
  have counts: "success_count (record_stats s b rt sc) + error_count (record_stats s b rt sc)
      = int (length (ts @ [rt]))"
    using assms(1) by (simp add: record_stats_counts)
  have avg: "avg_response_time (record_stats s b rt sc) * real (length (ts @ [rt]))
      = sum_list (ts @ [rt])"
  proof (cases "?n = 0")
    case True
    then show ?thesis using assms by (simp add: record_stats_avg)
  next
    case False
    have "avg_response_time (record_stats s b rt sc)
        = (avg_response_time s * real ?n + rt) / (real ?n + 1)"
      using False assms(1) by (simp add: record_stats_avg)
    moreover have "real ?n + 1 \<noteq> 0" by (simp add: add_nonneg_eq_0_iff)
    ultimately show ?thesis using assms(2) by (simp add: add.commute)
  qed
  show ?thesis unfolding stats_agree_def using counts avg by simp
qed

lemma stats_agree_default: "stats_agree (Some default_domain_stats) []"
  by (simp add: stats_agree_def default_domain_stats_def)

lemma stats_agree_record:
  assumes agree: "stats_agree (rl d) ts"
    and step: "record_request_result rl url b rt sc = Inr rl'"
  shows "stats_agree (rl' d)
           (if map_sum id netloc (urlparse url) = Inr d then ts @ [rt] else ts)"
proof (cases "urlparse url")
  case (Inl e)
  with step show ?thesis by (simp add: record_request_result_def)
next
  case (Inr p)
  with step have rl': "rl' = rl(netloc p \<mapsto> record_stats (domain_stats_of rl (netloc p)) b rt sc)"
    by (simp add: record_request_result_def Let_def)
  show ?thesis
  proof (cases "netloc p = d")
    case False
    with Inr rl' agree show ?thesis by simp
  next
    case True
    have "stats_agree (Some (record_stats (domain_stats_of rl d) b rt sc)) (ts @ [rt])"
    proof (cases "rl d")
      case None
      with agree have "ts = []" by (simp add: stats_agree_def)
      moreover from None have "domain_stats_of rl d = default_domain_stats"
        by (simp add: domain_stats_of_def)
      ultimately show ?thesis
        using stats_agree_record_stats [of default_domain_stats "[]" b rt sc]
        by (simp add: default_domain_stats_def)
    next
      case (Some s)
      with agree have "success_count s + error_count s = int (length ts)"
        and "avg_response_time s * real (length ts) = sum_list ts"
        by (simp_all add: stats_agree_def)
      moreover from Some have "domain_stats_of rl d = s" by (simp add: domain_stats_of_def)
      ultimately show ?thesis using stats_agree_record_stats by simp
    qed
    with True Inr rl' show ?thesis by simp
  qed
qed

lemma stats_agree_acquire:
  assumes agree: "stats_agree (rl d) ts"
    and step: "acquire_permit rl url now = Inr (granted, rl')"
  shows "stats_agree (rl' d) ts"
proof (cases "urlparse url")
  case (Inl e)
  with step show ?thesis by (simp add: acquire_permit_def)
next
  case (Inr p)
  let ?s = "domain_stats_of rl (netloc p)"
  from Inr step have rl': "rl' = rl(netloc p \<mapsto> ?s)
      \<or> rl' = rl(netloc p \<mapsto> ?s\<lparr> last_request_time := now, total_requests := total_requests ?s + 1 \<rparr>)"
    by (auto simp: acquire_permit_def Let_def split: if_splits sum.splits)
  show ?thesis
  proof (cases "netloc p = d")
    case False
    with rl' agree show ?thesis by auto
  next
    case True
    have "stats_agree (Some ?s) ts"
      using agree True stats_agree_default
      by (cases "rl d") (auto simp: domain_stats_of_def stats_agree_def)
    then have "stats_agree (Some (?s\<lparr> last_request_time := now, total_requests := total_requests ?s + 1 \<rparr>)) ts"
      by (simp add: stats_agree_def)
    with \<open>stats_agree (Some ?s) ts\<close> rl' True show ?thesis by auto
  qed
qed

lemma stats_agree_run:
  "run_limiter_calls rl0 calls = Inr rl \<Longrightarrow> stats_agree (rl0 d) ts
     \<Longrightarrow> stats_agree (rl d) (ts @ recorded_response_times d calls)"
proof (induction rl0 calls arbitrary: ts rule: run_limiter_calls.induct)
  case (1 rl0)
  then show ?case by simp
next
  case (2 rl0 url now calls)
  from "2.prems"(1) obtain granted rl1 where step: "acquire_permit rl0 url now = Inr (granted, rl1)"
    and rest: "run_limiter_calls rl1 calls = Inr rl"
    by (auto split: sum.splits)
  from stats_agree_acquire [OF "2.prems"(2) step] have "stats_agree (rl1 d) ts" .
  from "2.IH" [OF step refl rest this] show ?case by simp
next
  case (3 rl0 url success rt sc calls)
  from "3.prems"(1) obtain rl1 where step: "record_request_result rl0 url success rt sc = Inr rl1"
    and rest: "run_limiter_calls rl1 calls = Inr rl"
    by (auto split: sum.splits)
  let ?ts = "if map_sum id netloc (urlparse url) = Inr d then ts @ [rt] else ts"
  from stats_agree_record [OF "3.prems"(2) step] have "stats_agree (rl1 d) ?ts" .
  from "3.IH" [OF step rest this] show ?case
    by (cases "map_sum id netloc (urlparse url) = Inr d") simp_all
qed


text \<open>
  C6. A call of \<open>record_request_result\<close> with a URL that parses leaves an entry for the
  URL's domain. After a success the entry has \<open>consecutive_errors = 0\<close> and
  \<open>rate_limit_detected = False\<close>. After a failure \<open>consecutive_errors\<close> is one more than
  before, and \<open>rate_limit_detected\<close> is set to true exactly when the status code is 429,
  502 or 503 or the new \<open>consecutive_errors\<close> is at least 3 (otherwise it keeps its value).
  After any history of calls on a fresh rate limiter, the \<open>avg_response_time\<close> of a domain
  with at least one recorded request is the arithmetic mean of the response times
  recorded for it.
\<close>

theorem record_request_result_updates:
  "(urlparse url = Inr p \<longrightarrow>
      (\<exists>rl' s'. record_request_result rl url success rt sc = Inr rl'
         \<and> rl' (netloc p) = Some s'
         \<and> (success \<longrightarrow> consecutive_errors s' = 0 \<and> \<not> rate_limit_detected s')
         \<and> (\<not> success \<longrightarrow>
               consecutive_errors s' = consecutive_errors (domain_stats_of rl (netloc p)) + 1
               \<and> (sc \<in> {Some 429, Some 502, Some 503} \<or> consecutive_errors s' \<ge> 3
                    \<longrightarrow> rate_limit_detected s')
               \<and> (\<not> (sc \<in> {Some 429, Some 502, Some 503} \<or> consecutive_errors s' \<ge> 3)
                    \<longrightarrow> rate_limit_detected s'
                          = rate_limit_detected (domain_stats_of rl (netloc p))))))
   \<and> (run_limiter_calls Map.empty calls = Inr rl_end
        \<and> recorded_response_times d calls \<noteq> [] \<longrightarrow>
        map_option avg_response_time (rl_end d)
          = Some (sum_list (recorded_response_times d calls)
                    / real (length (recorded_response_times d calls))))"
proof (intro conjI impI)
  assume parsed: "urlparse url = Inr p"
  let ?old = "domain_stats_of rl (netloc p)"
  let ?s = "record_stats ?old success rt sc"
  have step: "record_request_result rl url success rt sc = Inr (rl(netloc p \<mapsto> ?s))"
    using parsed by (simp add: record_request_result_def Let_def)
  have "(rl(netloc p \<mapsto> ?s)) (netloc p) = Some ?s" by simp
  moreover have "success \<longrightarrow> consecutive_errors ?s = 0 \<and> \<not> rate_limit_detected ?s"
    using record_stats_success [of ?old rt sc] by simp
  moreover have "\<not> success \<longrightarrow>
      consecutive_errors ?s = consecutive_errors ?old + 1
      \<and> (sc \<in> {Some 429, Some 502, Some 503} \<or> consecutive_errors ?s \<ge> 3
           \<longrightarrow> rate_limit_detected ?s)
      \<and> (\<not> (sc \<in> {Some 429, Some 502, Some 503} \<or> consecutive_errors ?s \<ge> 3)
           \<longrightarrow> rate_limit_detected ?s = rate_limit_detected ?old)"
    using record_stats_failure [of ?old rt sc] by auto
  ultimately show "\<exists>rl' s'. record_request_result rl url success rt sc = Inr rl'
         \<and> rl' (netloc p) = Some s'
         \<and> (success \<longrightarrow> consecutive_errors s' = 0 \<and> \<not> rate_limit_detected s')
         \<and> (\<not> success \<longrightarrow>
               consecutive_errors s' = consecutive_errors ?old + 1
               \<and> (sc \<in> {Some 429, Some 502, Some 503} \<or> consecutive_errors s' \<ge> 3
                    \<longrightarrow> rate_limit_detected s')
               \<and> (\<not> (sc \<in> {Some 429, Some 502, Some 503} \<or> consecutive_errors s' \<ge> 3)
                    \<longrightarrow> rate_limit_detected s' = rate_limit_detected ?old))"
    using step by blast
next
  assume a: "run_limiter_calls Map.empty calls = Inr rl_end
      \<and> recorded_response_times d calls \<noteq> []"
  let ?ts = "recorded_response_times d calls"
  have "stats_agree (Map.empty d) []" by (simp add: stats_agree_def)
  with a have agree: "stats_agree (rl_end d) ([] @ ?ts)" by (intro stats_agree_run) simp_all
  from a have len: "real (length ?ts) \<noteq> 0" by simp
  from agree a obtain s where s: "rl_end d = Some s"
    and avg: "avg_response_time s * real (length ?ts) = sum_list ?ts"
    by (cases "rl_end d") (auto simp: stats_agree_def)
  from avg len have "avg_response_time s = sum_list ?ts / real (length ?ts)"
    by (simp add: nonzero_eq_divide_eq)
  with s show "map_option avg_response_time (rl_end d)
      = Some (sum_list ?ts / real (length ?ts))" by simp
qed

lemma urlparse_cdc_flu:
  "urlparse ''https://www.cdc.gov/flu'' =
     Inr \<lparr> scheme = ''https'', netloc = ''www.cdc.gov'', path = ''/flu'', params = [],
           query = [], fragment = [] \<rparr>"
  by code_simp

theorem record_request_result_updates_witness:
  "urlparse ''https://www.cdc.gov/flu'' =
     Inr \<lparr> scheme = ''https'', netloc = ''www.cdc.gov'', path = ''/flu'', params = [],
           query = [], fragment = [] \<rparr>
   \<and> (\<exists>rl' s'. record_request_result Map.empty ''https://www.cdc.gov/flu'' False 4 (Some 503) = Inr rl'
         \<and> rl' ''www.cdc.gov'' = Some s'
         \<and> consecutive_errors s' = 1 \<and> rate_limit_detected s')
   \<and> recorded_response_times ''www.cdc.gov''
        [Record ''https://www.cdc.gov/flu'' True 2 (Some 200),
         Record ''https://www.cdc.gov/flu'' False 4 (Some 503)] = [2, 4]
   \<and> map_sum id (\<lambda>rl. map_option avg_response_time (rl ''www.cdc.gov''))
        (run_limiter_calls Map.empty
          [Record ''https://www.cdc.gov/flu'' True 2 (Some 200),
           Record ''https://www.cdc.gov/flu'' False 4 (Some 503)]) = Inr (Some 3)"
proof -
  let ?u = "''https://www.cdc.gov/flu''"
  let ?p = "\<lparr> scheme = ''https'', netloc = ''www.cdc.gov'', path = ''/flu'', params = [],
           query = [], fragment = [] \<rparr>"
  let ?calls = "[Record ?u True 2 (Some 200), Record ?u False 4 (Some 503)]"
  have ts: "recorded_response_times ''www.cdc.gov'' ?calls = [2, 4]"
    by (simp add: urlparse_cdc_flu)
  obtain rl where run: "run_limiter_calls Map.empty ?calls = Inr rl"
    by (simp add: record_request_result_def urlparse_cdc_flu Let_def)
  from record_request_result_updates
         [of ?u ?p Map.empty False 4 "Some 503" ?calls rl "''www.cdc.gov''"]
  have first: "\<exists>rl' s'. record_request_result Map.empty ?u False 4 (Some 503) = Inr rl'
         \<and> rl' ''www.cdc.gov'' = Some s'
         \<and> consecutive_errors s' = 1 \<and> rate_limit_detected s'"
    and mean: "map_option avg_response_time (rl ''www.cdc.gov'') = Some 3"
    using urlparse_cdc_flu run ts
    by (simp_all add: domain_stats_of_def default_domain_stats_def)
  from mean run have "map_sum id (\<lambda>rl. map_option avg_response_time (rl ''www.cdc.gov''))
        (run_limiter_calls Map.empty ?calls) = Inr (Some 3)" by simp
  with urlparse_cdc_flu first ts show ?thesis by blast
qed

section \<open>Properties of the retry policy\<close>

lemma should_retry_below_bound:
  "attempt < max_retries tier \<Longrightarrow> should_retry tier err attempt = has_retry_keyword err"
  by (simp add: should_retry_def has_retry_keyword_def retry_on_errors_def Let_def)

lemma should_retry_at_bound:
  "attempt \<ge> max_retries tier \<Longrightarrow> \<not> should_retry tier err attempt"
  by (simp add: should_retry_def)

lemma should_retry_implies_keyword:
  "should_retry tier err attempt \<Longrightarrow> has_retry_keyword err"
  by (cases "attempt < max_retries tier")
     (simp_all add: should_retry_below_bound should_retry_at_bound)

lemma max_retries_spec: "max_retries tier = spec_max_retries tier"
  by (cases tier) (simp_all add: spec_max_retries_def)

lemma retry_loop_terminal_raised:
  assumes "k < 5" and "scraper k = Raised e" and "\<not> has_retry_keyword e"
  shows "retry_loop tier scraper k last_error = (False, k, Some e)"
proof -
  from assms(3) have "\<not> should_retry tier e k" using should_retry_implies_keyword by blast
  with assms(1,2) show ?thesis by (subst retry_loop.simps) simp
qed

lemma retry_loop_terminal_returned:
  assumes "k < 5" and "scraper k = Returned False details"
    and "\<not> has_retry_keyword (error_text details)"
  shows "retry_loop tier scraper k last_error = (False, k, Some (error_text details))"
proof -
  from assms(3) have "\<not> should_retry tier (error_text details) k"
    using should_retry_implies_keyword by blast
  with assms(1,2) show ?thesis by (subst retry_loop.simps) simp
qed

lemma error_text_examples:
  "error_text (Some []) = ''Unknown error''"
  "lower ''Unknown error'' = ''unknown error''"
  "lower ''HTTP 404: /item/5021'' = ''http 404: /item/5021''"
  "lower ''Name or service not known'' = ''name or service not known''"
  by code_simp+

lemma retry_keyword_examples:
  "\<not> has_retry_keyword ''Unknown error''"
  "has_retry_keyword ''HTTP 404: /item/5021''"
  "\<not> has_retry_keyword ''Name or service not known''"
  by (simp_all add: has_retry_keyword_def error_text_examples)

text \<open>
  The contract of the specification fails on the source in both directions. A fetch that
  timed out with an exception of empty text (\<^verbatim>\<open>asyncio.TimeoutError\<close>) reaches the retry
  system as \<^verbatim>\<open>Unknown error\<close> and is not retried, and a DNS failure reported as
  \<^verbatim>\<open>Name or service not known\<close> is not retried, though the specification retries both; a
  404 whose text names the path \<^verbatim>\<open>/item/5021\<close> is retried, though the specification makes
  it terminal.
\<close>

theorem should_retry_counterexample:
  "spec_should_retry TIER_1_GOVERNMENT \<lparr> kind = Timeout, message = error_text (Some []) \<rparr> 0
   \<and> \<not> should_retry TIER_1_GOVERNMENT
         (message \<lparr> kind = Timeout, message = error_text (Some []) \<rparr>) 0
   \<and> spec_should_retry TIER_1_GOVERNMENT
         \<lparr> kind = DnsFailure, message = ''Name or service not known'' \<rparr> 0
   \<and> \<not> should_retry TIER_1_GOVERNMENT
         (message \<lparr> kind = DnsFailure, message = ''Name or service not known'' \<rparr>) 0
   \<and> \<not> spec_should_retry TIER_1_GOVERNMENT
         \<lparr> kind = HttpStatus 404, message = ''HTTP 404: /item/5021'' \<rparr> 0
   \<and> should_retry TIER_1_GOVERNMENT
         (message \<lparr> kind = HttpStatus 404, message = ''HTTP 404: /item/5021'' \<rparr>) 0"
  by (simp add: spec_should_retry_def spec_max_retries_def should_retry_below_bound
        retry_keyword_examples error_text_examples)

text \<open>
  C8, amended. \<open>should_retry\<close> is false once the attempt number has reached the bound of
  the tier, which is 5 for the government tier, 4 for the international tier and 3 for
  every other tier. Below the bound it is true exactly when the lower-cased text of the
  error contains \<^verbatim>\<open>timeout\<close>, \<^verbatim>\<open>connection\<close>, \<^verbatim>\<open>network\<close>, \<^verbatim>\<open>502\<close>, \<^verbatim>\<open>503\<close>,
  \<^verbatim>\<open>504\<close> or \<^verbatim>\<open>429\<close>. In the retry loop an attempt that fails with an error whose
  text contains none of them, raised or returned, ends the task as failed without another
  attempt.
\<close>

theorem should_retry_contract:
  "(attempt \<ge> max_retries tier \<longrightarrow> \<not> should_retry tier err attempt)
   \<and> (attempt < max_retries tier \<longrightarrow>
        should_retry tier err attempt =
          (str_contains ''timeout'' (lower err) \<or> str_contains ''connection'' (lower err)
           \<or> str_contains ''network'' (lower err) \<or> str_contains ''502'' (lower err)
           \<or> str_contains ''503'' (lower err) \<or> str_contains ''504'' (lower err)
           \<or> str_contains ''429'' (lower err)))
   \<and> max_retries tier =
        (if tier = TIER_1_GOVERNMENT then 5 else if tier = TIER_2_INTERNATIONAL then 4 else 3)
   \<and> (k < 5 \<and> scraper k = Raised e
        \<and> \<not> (str_contains ''timeout'' (lower e) \<or> str_contains ''connection'' (lower e)
              \<or> str_contains ''network'' (lower e) \<or> str_contains ''502'' (lower e)
              \<or> str_contains ''503'' (lower e) \<or> str_contains ''504'' (lower e)
              \<or> str_contains ''429'' (lower e)) \<longrightarrow>
        retry_loop tier scraper k last_error = (False, k, Some e))
   \<and> (k < 5 \<and> scraper k = Returned False details
        \<and> \<not> (str_contains ''timeout'' (lower (error_text details))
              \<or> str_contains ''connection'' (lower (error_text details))
              \<or> str_contains ''network'' (lower (error_text details))
              \<or> str_contains ''502'' (lower (error_text details))
              \<or> str_contains ''503'' (lower (error_text details))
              \<or> str_contains ''504'' (lower (error_text details))
              \<or> str_contains ''429'' (lower (error_text details))) \<longrightarrow>
        retry_loop tier scraper k last_error = (False, k, Some (error_text details)))"
proof (intro conjI impI)
  assume "attempt \<ge> max_retries tier"
  then show "\<not> should_retry tier err attempt" by (rule should_retry_at_bound)
next
  assume "attempt < max_retries tier"
  then show "should_retry tier err attempt =
      (str_contains ''timeout'' (lower err) \<or> str_contains ''connection'' (lower err)
       \<or> str_contains ''network'' (lower err) \<or> str_contains ''502'' (lower err)
       \<or> str_contains ''503'' (lower err) \<or> str_contains ''504'' (lower err)
       \<or> str_contains ''429'' (lower err))"
    by (simp only: should_retry_below_bound has_retry_keyword_def)
next
  show "max_retries tier =
      (if tier = TIER_1_GOVERNMENT then 5 else if tier = TIER_2_INTERNATIONAL then 4 else 3)"
    by (simp only: max_retries_spec spec_max_retries_def)
next
  assume "k < 5 \<and> scraper k = Raised e
      \<and> \<not> (str_contains ''timeout'' (lower e) \<or> str_contains ''connection'' (lower e)
            \<or> str_contains ''network'' (lower e) \<or> str_contains ''502'' (lower e)
            \<or> str_contains ''503'' (lower e) \<or> str_contains ''504'' (lower e)
            \<or> str_contains ''429'' (lower e))"
  then have "k < 5" and "scraper k = Raised e" and "\<not> has_retry_keyword e"
    by (simp_all add: has_retry_keyword_def)
  then show "retry_loop tier scraper k last_error = (False, k, Some e)"
    by (rule retry_loop_terminal_raised)
next
  assume "k < 5 \<and> scraper k = Returned False details
      \<and> \<not> (str_contains ''timeout'' (lower (error_text details))
            \<or> str_contains ''connection'' (lower (error_text details))
            \<or> str_contains ''network'' (lower (error_text details))
            \<or> str_contains ''502'' (lower (error_text details))
            \<or> str_contains ''503'' (lower (error_text details))
            \<or> str_contains ''504'' (lower (error_text details))
            \<or> str_contains ''429'' (lower (error_text details)))"
  then have "k < 5" and "scraper k = Returned False details"
    and "\<not> has_retry_keyword (error_text details)"
    by (simp_all add: has_retry_keyword_def)
  then show "retry_loop tier scraper k last_error = (False, k, Some (error_text details))"
    by (rule retry_loop_terminal_returned)
qed

lemma lower_examples:
  "lower ''Timeout'' = ''timeout''" "lower ''404'' = ''404''"
  "error_text (Some ''404'') = ''404''"
  by code_simp+

theorem should_retry_contract_witness:
  "(5::int) \<ge> max_retries TIER_1_GOVERNMENT
   \<and> \<not> should_retry TIER_1_GOVERNMENT ''Timeout'' 5
   \<and> (4::int) < max_retries TIER_1_GOVERNMENT
   \<and> should_retry TIER_1_GOVERNMENT ''Timeout'' 4
   \<and> str_contains ''timeout'' (lower ''Timeout'')
   \<and> max_retries TIER_9_NEWS = 3
   \<and> \<not> should_retry TIER_9_NEWS ''404'' 0
   \<and> retry_loop TIER_9_NEWS (\<lambda>n. Raised ''404'') 0 None = (False, 0, Some ''404'')
   \<and> retry_loop TIER_9_NEWS (\<lambda>n. Returned False (Some ''404'')) 0 None
       = (False, 0, Some ''404'')"
proof -
  note ex = lower_examples
  have a: "(5::int) \<ge> max_retries TIER_1_GOVERNMENT \<and> \<not> should_retry TIER_1_GOVERNMENT ''Timeout'' 5"
    using should_retry_contract [of TIER_1_GOVERNMENT 5 "''Timeout''"] by simp
  have b: "(4::int) < max_retries TIER_1_GOVERNMENT \<and> should_retry TIER_1_GOVERNMENT ''Timeout'' 4
      \<and> str_contains ''timeout'' (lower ''Timeout'')"
    using should_retry_contract [of TIER_1_GOVERNMENT 4 "''Timeout''"] by (simp add: ex)
  have c: "max_retries TIER_9_NEWS = 3 \<and> \<not> should_retry TIER_9_NEWS ''404'' 0"
    using should_retry_contract [of TIER_9_NEWS 0 "''404''"] by (simp add: ex)
  have d: "retry_loop TIER_9_NEWS (\<lambda>n. Raised ''404'') 0 None = (False, 0, Some ''404'')"
    using should_retry_contract
            [of TIER_9_NEWS 0 "''x''" 0 "\<lambda>n. Raised ''404''" "''404''" None None]
    by (simp add: ex)
  have e: "retry_loop TIER_9_NEWS (\<lambda>n. Returned False (Some ''404'')) 0 None
      = (False, 0, Some ''404'')"
    using should_retry_contract
            [of TIER_9_NEWS 0 "''x''" 0 "\<lambda>n. Returned False (Some ''404'')" "''x''"
                None "Some ''404''"]
    by (simp add: ex)
  from a b c d e show ?thesis by simp
qed

section \<open>What \<^verbatim>\<open>get_next_batch\<close> returns\<close>

text \<open>
  The loop condition \<^verbatim>\<open>len(batch) < len(batch) + count\<close> does not depend on how many tasks
  the loop has taken: for a positive \<open>count\<close> it takes the whole queue.
\<close>

lemma drain_allocated_positive:
  "count > 0 \<Longrightarrow> drain_allocated count batch queue = (batch @ queue, [])"
  by (induction queue arbitrary: batch) simp_all

lemma drain_allocated_nonpositive:
  "count \<le> 0 \<Longrightarrow> drain_allocated count batch queue = (batch, queue)"
  by (cases queue) simp_all

lemma allocation_counts_for_10:
  "py_int (real_of_int 10 * 0.4) = 4" "py_int (real_of_int 10 * 0.3) = 3"
  "py_int (real_of_int 10 * 0.2) = 2" "py_int (real_of_int 10 * 0.1) = 1"
  "py_int (real_of_int 10 * 0.0) = 0"
  by (simp_all add: py_int_def)

text \<open>
  C1, evaluated. With 20 tasks in the Critical queue and nothing else queued, a request for
  a batch of 10 returns all 20 tasks and empties the queue: the share of the Critical
  queue is \<open>int (10 * 0.4) = 4\<close>, which is positive.
\<close>

theorem get_next_batch_exceeds_batch_size:
  "get_next_batch ((\<lambda>priority. [])(CRITICAL := [1..<21])) 10 = ([1..<21], (\<lambda>priority. []))
   \<and> length (fst (get_next_batch ((\<lambda>priority. [])(CRITICAL := [1..<21])) 10)) = 20"
proof -
  have "get_next_batch ((\<lambda>priority. [])(CRITICAL := [1..<21])) 10
      = ([1..<21], (\<lambda>priority. []))"
    unfolding get_next_batch_def priority_allocation_def all_priorities_def
    by (simp add: py_int_def drain_allocated_positive
          drain_allocated_nonpositive fun_eq_iff del: upt_Suc)
  then show ?thesis by simp
qed

section \<open>What \<^verbatim>\<open>start_comprehensive_scraping\<close> accepts\<close>

text \<open>
  C2, evaluated. With no operation running, a request with \<open>target_documents = 0\<close> is not
  rejected: the endpoint answers \<^verbatim>\<open>started\<close> and records a running operation, because
  the range check is guarded by the truth value of \<open>target_documents\<close> and 0 is false.
\<close>

theorem start_comprehensive_scraping_accepts_zero:
  "start_comprehensive_scraping
     \<lparr> phase1_system = None, current_operation = None, background_tasks = [] \<rparr>
     \<lparr> target_documents = Some 0, max_concurrent_workers = Some 100, tiers = None,
       quality_threshold = Some 0.6 \<rparr>
     ''20240101_000000'' 0
   = (Inr \<lparr> response_operation_id = ''scraping_20240101_000000'',
             response_status = ''started'',
             response_config =
               \<lparr> target_documents = Some 0, max_concurrent_workers = Some 100, tiers = None,
                 quality_threshold = Some 0.6 \<rparr> \<rparr>,
      \<lparr> phase1_system =
          Some \<lparr> target_documents = Some 0, max_concurrent_workers = Some 100, tiers = None,
                 quality_threshold = Some 0.6 \<rparr>,
        current_operation =
          Some \<lparr> operation_id = ''scraping_20240101_000000'', status = ''running'',
                 started_at = 0,
                 config = \<lparr> target_documents = Some 0, max_concurrent_workers = Some 100,
                            tiers = None, quality_threshold = Some 0.6 \<rparr> \<rparr>,
        background_tasks = [''scraping_20240101_000000''] \<rparr>)"
  unfolding start_comprehensive_scraping_def Let_def
  by (simp add: int_truthy_def float_truthy_def phase1_default_config_def)

lemma start_rejects_out_of_range_target:
  "n \<noteq> 0 \<Longrightarrow> n < 1 \<or> n > 1000000 \<Longrightarrow>
   start_comprehensive_scraping st (request\<lparr> target_documents := Some n \<rparr>) stamp now
     = (Inl (HTTPException 422 ''target_documents must be between 1 and 1,000,000''), st)"
  unfolding start_comprehensive_scraping_def Let_def
  by (simp add: int_truthy_def)

lemma start_rejects_out_of_range_quality:
  "target_documents request = Some n \<Longrightarrow> 1 \<le> n \<Longrightarrow> n \<le> 1000000 \<Longrightarrow>
   quality_threshold request = Some q \<Longrightarrow> q < 0 \<or> q > 1 \<Longrightarrow>
   start_comprehensive_scraping st request stamp now
     = (Inl (HTTPException 422 ''quality_threshold must be between 0.0 and 1.0''), st)"
  unfolding start_comprehensive_scraping_def Let_def
  by (auto simp: int_truthy_def float_truthy_def)

lemma start_conflict_when_running:
  "target_documents request = Some n \<Longrightarrow> 1 \<le> n \<Longrightarrow> n \<le> 1000000 \<Longrightarrow>
   quality_threshold request = Some q \<Longrightarrow> 0 \<le> q \<Longrightarrow> q \<le> 1 \<Longrightarrow>
   current_operation st = Some op \<Longrightarrow> status op = ''running'' \<Longrightarrow>
   start_comprehensive_scraping st request stamp now
     = (Inl (HTTPException 409 ''Scraping operation already in progress''), st)"
  unfolding start_comprehensive_scraping_def Let_def
  by (auto simp: int_truthy_def float_truthy_def)

section \<open>The query and the fragment do not reach the URL pattern\<close>

lemma in_set_dropWhile: "x \<in> set xs \<Longrightarrow> \<not> P x \<Longrightarrow> x \<in> set (dropWhile P xs)"
  by (induction xs) auto

lemma takeWhile_twice: "takeWhile P (takeWhile Q xs) = takeWhile (\<lambda>x. P x \<and> Q x) xs"
  by (induction xs) auto

lemma has_delimiterE:
  assumes "has_delimiter b"
  obtains m where "m \<in> set b" and "m = CHR ''?'' \<or> m = CHR ''#''"
  using assms unfolding has_delimiter_def by blast

lemma has_delimiterI: "m \<in> set b \<Longrightarrow> m = CHR ''?'' \<or> m = CHR ''#'' \<Longrightarrow> has_delimiter b"
  unfolding has_delimiter_def by blast

lemma delimiter_facts:
  assumes "m = CHR ''?'' \<or> m = CHR ''#''"
  shows "\<not> (of_char m :: nat) \<le> 32" and "m \<notin> {CHR 0x09, CHR 0x0A, CHR 0x0D}"
    and "\<not> is_scheme_char m" and "m \<noteq> CHR '':''" and "m \<noteq> CHR ''/''"
    and "m \<in> set ''/?#''"
  using assms
  by (auto simp: is_scheme_char_def is_ascii_lower_def is_ascii_upper_def is_digit_def)

lemma strip_unsafe_append:
  assumes "has_delimiter b"
  shows "strip_unsafe (b @ s) = strip_unsafe b @ filter (\<lambda>c. c \<notin> {CHR 0x09, CHR 0x0A, CHR 0x0D}) s"
    and "has_delimiter (strip_unsafe b)"
proof -
  from assms obtain m where m: "m \<in> set b" "m = CHR ''?'' \<or> m = CHR ''#''"
    by (rule has_delimiterE)
  let ?P = "\<lambda>c. (of_char c :: nat) \<le> 32"
  have "dropWhile ?P (b @ s) = dropWhile ?P b @ s"
    using m(1) delimiter_facts(1) [OF m(2)] by (rule dropWhile_append1)
  then show "strip_unsafe (b @ s)
      = strip_unsafe b @ filter (\<lambda>c. c \<notin> {CHR 0x09, CHR 0x0A, CHR 0x0D}) s"
    by (simp add: strip_unsafe_def)
  have "m \<in> set (dropWhile ?P b)"
    using m(1) delimiter_facts(1) [OF m(2)] by (rule in_set_dropWhile)
  then have "m \<in> set (strip_unsafe b)"
    using delimiter_facts(2) [OF m(2)] by (simp add: strip_unsafe_def)
  then show "has_delimiter (strip_unsafe b)" using m(2) by (rule has_delimiterI)
qed

lemma split_scheme_append:
  assumes "has_delimiter b"
  shows "split_scheme (b @ s) = (fst (split_scheme b), snd (split_scheme b) @ s)"
    and "has_delimiter (snd (split_scheme b))"
proof -
  from assms obtain m where m: "m \<in> set b" "m = CHR ''?'' \<or> m = CHR ''#''"
    by (rule has_delimiterE)
  note mf = delimiter_facts [OF m(2)]
  let ?P = "\<lambda>c. c \<noteq> CHR '':''"
  let ?pre = "takeWhile ?P b"
  let ?ok = "list_all is_scheme_char ?pre
      \<and> (case ?pre of [] \<Rightarrow> False | c # _ \<Rightarrow> is_ascii_lower c \<or> is_ascii_upper c)"
  have both: "split_scheme (b @ s) = (fst (split_scheme b), snd (split_scheme b) @ s)
      \<and> has_delimiter (snd (split_scheme b))"
  proof (cases "CHR '':'' \<in> set b")
    case True
    have tw: "takeWhile ?P (b @ s) = ?pre"
      using True by (intro takeWhile_append1) simp_all
    have dw: "dropWhile ?P (b @ s) = dropWhile ?P b @ s"
      using True by (intro dropWhile_append1) simp_all
    from True have ne: "dropWhile ?P b \<noteq> []" by (simp add: dropWhile_eq_Nil_conv)
    then have d1: "drop 1 (dropWhile ?P b @ s) = drop 1 (dropWhile ?P b) @ s"
      by (cases "dropWhile ?P b") simp_all
    show ?thesis
    proof (cases ?ok)
      case ok: True
      then have "m \<notin> set ?pre" using mf(3) by (auto simp: list_all_iff)
      moreover have "set b = set ?pre \<union> set (dropWhile ?P b)"
        by (metis set_append takeWhile_dropWhile_id)
      ultimately have md: "m \<in> set (dropWhile ?P b)" using m(1) by blast
      from ne have "hd (dropWhile ?P b) = CHR '':''" using hd_dropWhile [of ?P b] by simp
      with ne md mf(4) have "m \<in> set (drop 1 (dropWhile ?P b))"
        by (cases "dropWhile ?P b") auto
      then have "has_delimiter (drop 1 (dropWhile ?P b))" using m(2) by (rule has_delimiterI)
      with ok True tw dw d1 show ?thesis
        by (simp add: split_scheme_def Let_def)
    next
      case nok: False
      with True tw assms show ?thesis by (auto simp: split_scheme_def Let_def)
    qed
  next
    case False
    then have sb: "split_scheme b = ([], b)" by (simp add: split_scheme_def Let_def)
    from False have "takeWhile ?P (b @ s) = b @ takeWhile ?P s"
      by (intro takeWhile_append2) auto
    moreover have "\<not> list_all is_scheme_char b"
      using m(1) mf(3) by (auto simp: list_all_iff)
    ultimately have "split_scheme (b @ s) = ([], b @ s)"
      by (simp add: split_scheme_def Let_def)
    with sb assms show ?thesis by simp
  qed
  from both show "split_scheme (b @ s) = (fst (split_scheme b), snd (split_scheme b) @ s)" ..
  from both show "has_delimiter (snd (split_scheme b))" ..
qed

lemma splitnetloc_append:
  assumes "has_delimiter r"
  shows "splitnetloc (r @ s) = (fst (splitnetloc r), snd (splitnetloc r) @ s)"
    and "has_delimiter (snd (splitnetloc r))"
proof -
  from assms obtain m where m: "m \<in> set r" "m = CHR ''?'' \<or> m = CHR ''#''"
    by (rule has_delimiterE)
  note mf = delimiter_facts [OF m(2)]
  let ?D = "\<lambda>c. c \<notin> set ''/?#''"
  have t2: "(take 2 (r @ s) = ''//'') = (take 2 r = ''//'')"
  proof (cases r)
    case Nil
    with m(1) show ?thesis by simp
  next
    case (Cons x r1)
    show ?thesis
    proof (cases r1)
      case Nil
      with Cons m(1) have "x = m" by simp
      with Cons Nil mf(5) show ?thesis by (cases s) auto
    next
      case (Cons y r2)
      with \<open>r = x # r1\<close> show ?thesis by simp
    qed
  qed
  have both: "splitnetloc (r @ s) = (fst (splitnetloc r), snd (splitnetloc r) @ s)
      \<and> has_delimiter (snd (splitnetloc r))"
  proof (cases "take 2 r = ''//''")
    case False
    with t2 assms show ?thesis by (simp add: splitnetloc_def)
  next
    case True
    then obtain r' where r: "r = CHR ''/'' # CHR ''/'' # r'"
      by (cases r; cases "tl r") (auto split: if_splits)
    with m(1) mf(5) have mr: "m \<in> set r'" by auto
    have nd: "\<not> ?D m" using mf(6) by simp
    have tw: "takeWhile ?D (r' @ s) = takeWhile ?D r'"
      using mr nd by (rule takeWhile_append1)
    have dw: "dropWhile ?D (r' @ s) = dropWhile ?D r' @ s"
      using mr nd by (rule dropWhile_append1)
    have "m \<in> set (dropWhile ?D r')" using mr nd by (rule in_set_dropWhile)
    then have "has_delimiter (dropWhile ?D r')" using m(2) by (rule has_delimiterI)
    with r tw dw show ?thesis by (simp add: splitnetloc_def)
  qed
  from both show "splitnetloc (r @ s) = (fst (splitnetloc r), snd (splitnetloc r) @ s)" ..
  from both show "has_delimiter (snd (splitnetloc r))" ..
qed

lemma path_part_append:
  assumes "has_delimiter r"
  shows "fst (split_first CHR ''?'' (fst (split_first CHR ''#'' (r @ s))))
       = fst (split_first CHR ''?'' (fst (split_first CHR ''#'' r)))"
proof -
  from assms obtain m where m: "m \<in> set r" "m = CHR ''?'' \<or> m = CHR ''#''"
    by (rule has_delimiterE)
  let ?Q = "\<lambda>c. c \<noteq> CHR ''?'' \<and> c \<noteq> CHR ''#''"
  have "\<not> ?Q m" using m(2) by auto
  with m(1) have "takeWhile ?Q (r @ s) = takeWhile ?Q r" by (rule takeWhile_append1)
  then show ?thesis by (simp add: split_first_def takeWhile_twice)
qed

lemma urlparse_append:
  assumes "has_delimiter b"
  shows "map_sum id (\<lambda>p. (scheme p, netloc p, path p, params p)) (urlparse (b @ s))
       = map_sum id (\<lambda>p. (scheme p, netloc p, path p, params p)) (urlparse b)"
proof -
  note A = strip_unsafe_append [OF assms]
  note B = split_scheme_append [OF A(2)]
  note C = splitnetloc_append [OF B(2)]
  note D = path_part_append [OF C(2)]
  show ?thesis
    unfolding urlparse_def Let_def case_prod_beta strip_unsafe_def [symmetric]
    by (simp add: A(1) B(1) C(1) D)
qed

lemma extract_url_pattern_cong:
  assumes "map_sum id (\<lambda>p. (netloc p, path p)) (urlparse u1)
         = map_sum id (\<lambda>p. (netloc p, path p)) (urlparse u2)"
  shows "extract_url_pattern u1 = extract_url_pattern u2"
  using assms unfolding extract_url_pattern_def Let_def
  by (cases "urlparse u1"; cases "urlparse u2") simp_all

lemma extract_url_pattern_append:
  assumes "has_delimiter b"
  shows "extract_url_pattern (b @ s) = extract_url_pattern b"
proof (rule extract_url_pattern_cong)
  from urlparse_append [OF assms, of s]
  show "map_sum id (\<lambda>p. (netloc p, path p)) (urlparse (b @ s))
      = map_sum id (\<lambda>p. (netloc p, path p)) (urlparse b)"
    by (cases "urlparse (b @ s)"; cases "urlparse b") simp_all
qed

lemma extract_url_pattern_parsed:
  "urlparse u = Inr p \<Longrightarrow>
   extract_url_pattern u
     = Inr (netloc p @ sub_page_digits (sub_slash_digits (rstrip_slash (path p))))"
  by (simp add: extract_url_pattern_def Let_def)

section \<open>Properties of the deduplicator\<close>

lemma is_duplicate_fresh:
  assumes "md5 c \<notin> content_hashes d" and "extract_url_pattern u = Inr p"
    and "p \<notin> url_patterns d"
  shows "is_duplicate md5 d c u meta =
     Inr (False, d\<lparr> content_hashes := insert (md5 c) (content_hashes d),
                    url_patterns := insert p (url_patterns d) \<rparr>)"
  using assms unfolding is_duplicate_def Let_def
  by (simp add: is_similar_content_def is_duplicate_by_metadata_def split: option.splits)

lemma is_duplicate_seen_hash:
  "md5 c \<in> content_hashes d \<Longrightarrow> is_duplicate md5 d c u meta = Inr (True, d)"
  unfolding is_duplicate_def Let_def by simp

lemma is_duplicate_seen_pattern:
  "extract_url_pattern u = Inr p \<Longrightarrow> p \<in> url_patterns d \<Longrightarrow>
   is_duplicate md5 d c u meta = Inr (True, d)"
  unfolding is_duplicate_def Let_def by simp

lemma is_duplicate_False_records:
  assumes "is_duplicate md5 d c u meta = Inr (False, d1)"
  shows "\<exists>p. extract_url_pattern u = Inr p
       \<and> d1 = d\<lparr> content_hashes := insert (md5 c) (content_hashes d),
                  url_patterns := insert p (url_patterns d) \<rparr>"
  using assms unfolding is_duplicate_def Let_def
  by (auto split: if_splits sum.splits)

text \<open>
  C9. From a deduplicator that knows neither the hash of the content nor the pattern of the
  URL, \<open>is_duplicate\<close> answers \<open>False\<close> and records the hash and the pattern; a second call
  with the same content, whatever its URL, answers \<open>True\<close>. When the URL of the first call
  ends in the query parameter \<^verbatim>\<open>page=3\<close>, a second call with any content and the same URL
  ending in \<^verbatim>\<open>page=7\<close> answers \<open>True\<close>. A call that matches a known hash or a known
  pattern answers \<open>True\<close> and leaves the deduplicator as it was.
\<close>

theorem is_duplicate_twice:
  "(md5 c \<notin> content_hashes d \<and> extract_url_pattern u = Inr p \<and> p \<notin> url_patterns d \<longrightarrow>
      (\<exists>d1. is_duplicate md5 d c u meta = Inr (False, d1)
         \<and> content_hashes d1 = insert (md5 c) (content_hashes d)
         \<and> url_patterns d1 = insert p (url_patterns d)
         \<and> is_duplicate md5 d1 c u' meta' = Inr (True, d1)))
   \<and> (CHR ''?'' \<in> set b \<and> md5 c1 \<notin> content_hashes d
        \<and> extract_url_pattern (b @ ''page=3'') = Inr p \<and> p \<notin> url_patterns d \<longrightarrow>
      (\<exists>d1. is_duplicate md5 d c1 (b @ ''page=3'') meta = Inr (False, d1)
         \<and> is_duplicate md5 d1 c2 (b @ ''page=7'') meta' = Inr (True, d1)))
   \<and> (md5 c \<in> content_hashes d \<longrightarrow> is_duplicate md5 d c u meta = Inr (True, d))
   \<and> (extract_url_pattern u = Inr p \<and> p \<in> url_patterns d \<longrightarrow>
        is_duplicate md5 d c u meta = Inr (True, d))"
proof (intro conjI impI)
  assume a: "md5 c \<notin> content_hashes d \<and> extract_url_pattern u = Inr p \<and> p \<notin> url_patterns d"
  let ?d1 = "d\<lparr> content_hashes := insert (md5 c) (content_hashes d),
                 url_patterns := insert p (url_patterns d) \<rparr>"
  from a have "is_duplicate md5 d c u meta = Inr (False, ?d1)"
    by (intro is_duplicate_fresh) simp_all
  moreover have "is_duplicate md5 ?d1 c u' meta' = Inr (True, ?d1)"
    by (rule is_duplicate_seen_hash) simp
  ultimately show "\<exists>d1. is_duplicate md5 d c u meta = Inr (False, d1)
         \<and> content_hashes d1 = insert (md5 c) (content_hashes d)
         \<and> url_patterns d1 = insert p (url_patterns d)
         \<and> is_duplicate md5 d1 c u' meta' = Inr (True, d1)"
    by (intro exI [of _ ?d1]) simp
next
  assume a: "CHR ''?'' \<in> set b \<and> md5 c1 \<notin> content_hashes d
      \<and> extract_url_pattern (b @ ''page=3'') = Inr p \<and> p \<notin> url_patterns d"
  let ?d1 = "d\<lparr> content_hashes := insert (md5 c1) (content_hashes d),
                 url_patterns := insert p (url_patterns d) \<rparr>"
  from a have hb: "has_delimiter b" by (simp add: has_delimiter_def)
  from a have first: "is_duplicate md5 d c1 (b @ ''page=3'') meta = Inr (False, ?d1)"
    by (intro is_duplicate_fresh) simp_all
  have "extract_url_pattern (b @ ''page=7'') = extract_url_pattern (b @ ''page=3'')"
    by (simp only: extract_url_pattern_append [OF hb])
  with a have "extract_url_pattern (b @ ''page=7'') = Inr p" by simp
  then have "is_duplicate md5 ?d1 c2 (b @ ''page=7'') meta' = Inr (True, ?d1)"
    by (rule is_duplicate_seen_pattern) simp
  with first show "\<exists>d1. is_duplicate md5 d c1 (b @ ''page=3'') meta = Inr (False, d1)
         \<and> is_duplicate md5 d1 c2 (b @ ''page=7'') meta' = Inr (True, d1)"
    by blast
next
  assume "md5 c \<in> content_hashes d"
  then show "is_duplicate md5 d c u meta = Inr (True, d)" by (rule is_duplicate_seen_hash)
next
  assume "extract_url_pattern u = Inr p \<and> p \<in> url_patterns d"
  then show "is_duplicate md5 d c u meta = Inr (True, d)"
    by (intro is_duplicate_seen_pattern [of u p]) simp_all
qed

lemma extract_url_pattern_example:
  "extract_url_pattern ''http://a.org/b/42/?page=3'' = Inr ''a.org/b/[ID]''"
  by code_simp

lemma urlparse_examples:
  "urlparse ''http://a.org/b?x=1'' =
     Inr \<lparr> scheme = ''http'', netloc = ''a.org'', path = ''/b'', params = [],
           query = ''x=1'', fragment = [] \<rparr>"
  "urlparse ''http://a.org/b?y=2#z'' =
     Inr \<lparr> scheme = ''http'', netloc = ''a.org'', path = ''/b'', params = [],
           query = ''y=2'', fragment = ''z'' \<rparr>"
  by code_simp+

theorem is_duplicate_twice_witness:
  "(\<exists>d1. is_duplicate (\<lambda>c. c) new_deduplicator ''first'' ''http://a.org/b/42/?page=3'' None
            = Inr (False, d1)
        \<and> content_hashes d1 = {''first''} \<and> url_patterns d1 = {''a.org/b/[ID]''}
        \<and> is_duplicate (\<lambda>c. c) d1 ''first'' ''http://a.org/b/42/?page=3'' None = Inr (True, d1)
        \<and> is_duplicate (\<lambda>c. c) d1 ''second'' ''http://a.org/b/42/?page=7'' None = Inr (True, d1))"
proof -
  let ?b = "''http://a.org/b/42/?''"
  have u: "?b @ ''page=3'' = ''http://a.org/b/42/?page=3''"
    and u': "?b @ ''page=7'' = ''http://a.org/b/42/?page=7''" by simp_all
  have q: "CHR ''?'' \<in> set ?b" by simp
  have fresh: "(\<lambda>c. c) ''first'' \<notin> content_hashes new_deduplicator"
    "''a.org/b/[ID]'' \<notin> url_patterns new_deduplicator"
    by (simp_all add: new_deduplicator_def)
  note inst = is_duplicate_twice
    [of "\<lambda>c. c" "''first''" new_deduplicator "''http://a.org/b/42/?page=3''" "''a.org/b/[ID]''"
        None "''http://a.org/b/42/?page=3''" None ?b "''first''" "''second''"]
  from inst q fresh extract_url_pattern_example
  obtain d1 where 1: "is_duplicate (\<lambda>c. c) new_deduplicator ''first'' ''http://a.org/b/42/?page=3'' None
            = Inr (False, d1)"
    and 2: "content_hashes d1 = insert ''first'' (content_hashes new_deduplicator)"
    and 3: "url_patterns d1 = insert ''a.org/b/[ID]'' (url_patterns new_deduplicator)"
    and 4: "is_duplicate (\<lambda>c. c) d1 ''first'' ''http://a.org/b/42/?page=3'' None = Inr (True, d1)"
    unfolding u by blast
  from inst q fresh extract_url_pattern_example
  obtain d2 where 5: "is_duplicate (\<lambda>c. c) new_deduplicator ''first'' ''http://a.org/b/42/?page=3'' None
            = Inr (False, d2)"
    and 6: "is_duplicate (\<lambda>c. c) d2 ''second'' ''http://a.org/b/42/?page=7'' None = Inr (True, d2)"
    unfolding u u' by blast
  from 1 5 have "d2 = d1" by simp
  with 1 2 3 4 6 show ?thesis by (auto simp: new_deduplicator_def)
qed

lemma extract_url_pattern_examples:
  "extract_url_pattern ''http://c.org/z'' = Inr ''c.org/z''"
  "extract_url_pattern ''http://a.org/b?x=1'' = Inr ''a.org/b''"
  "extract_url_pattern ''http://a.org/b?y=2#z'' = Inr ''a.org/b''"
  by code_simp+

text \<open>
  Two URLs with the same network location and path need not make the second call a
  duplicate. On a fresh deduplicator the content \<^verbatim>\<open>first\<close> is seen at
  \<^verbatim>\<open>http://c.org/z\<close>. The same content at \<^verbatim>\<open>http://a.org/b?x=1\<close> is then a duplicate by
  its hash, and a call that matches records nothing, so the pattern \<^verbatim>\<open>a.org/b\<close> stays
  unknown. New content at \<^verbatim>\<open>http://a.org/b?y=2#z\<close> is therefore not a duplicate. The
  identity stands for the hash function; any function that separates the two contents
  behaves alike.
\<close>

theorem second_call_not_duplicate_counterexample:
  "is_duplicate (\<lambda>c. c) new_deduplicator ''first'' ''http://c.org/z'' None
     = Inr (False, \<lparr> content_hashes = {''first''}, similarity_threshold = 0.85,
                     url_patterns = {''c.org/z''} \<rparr>)
   \<and> is_duplicate (\<lambda>c. c)
        \<lparr> content_hashes = {''first''}, similarity_threshold = 0.85,
          url_patterns = {''c.org/z''} \<rparr>
        ''first'' ''http://a.org/b?x=1'' None
     = Inr (True, \<lparr> content_hashes = {''first''}, similarity_threshold = 0.85,
                    url_patterns = {''c.org/z''} \<rparr>)
   \<and> map_sum id (\<lambda>p. (netloc p, path p)) (urlparse ''http://a.org/b?x=1'')
     = Inr (''a.org'', ''/b'')
   \<and> map_sum id (\<lambda>p. (netloc p, path p)) (urlparse ''http://a.org/b?y=2#z'')
     = Inr (''a.org'', ''/b'')
   \<and> is_duplicate (\<lambda>c. c)
        \<lparr> content_hashes = {''first''}, similarity_threshold = 0.85,
          url_patterns = {''c.org/z''} \<rparr>
        ''second'' ''http://a.org/b?y=2#z'' None
     = Inr (False, \<lparr> content_hashes = {''second'', ''first''}, similarity_threshold = 0.85,
                     url_patterns = {''a.org/b'', ''c.org/z''} \<rparr>)"
proof -
  let ?d1 = "\<lparr> content_hashes = {''first''}, similarity_threshold = 0.85,
             url_patterns = {''c.org/z''} \<rparr>"
  have 1: "is_duplicate (\<lambda>c. c) new_deduplicator ''first'' ''http://c.org/z'' None
      = Inr (False, ?d1)"
    using is_duplicate_fresh [of "\<lambda>c. c" "''first''" new_deduplicator "''http://c.org/z''"
            "''c.org/z''" None]
    by (simp add: extract_url_pattern_examples new_deduplicator_def)
  have 2: "is_duplicate (\<lambda>c. c) ?d1 ''first'' ''http://a.org/b?x=1'' None = Inr (True, ?d1)"
    by (rule is_duplicate_seen_hash) simp
  have 3: "is_duplicate (\<lambda>c. c) ?d1 ''second'' ''http://a.org/b?y=2#z'' None
      = Inr (False, \<lparr> content_hashes = {''second'', ''first''}, similarity_threshold = 0.85,
                      url_patterns = {''a.org/b'', ''c.org/z''} \<rparr>)"
    using is_duplicate_fresh [of "\<lambda>c. c" "''second''" ?d1 "''http://a.org/b?y=2#z''"
            "''a.org/b''" None]
    by (simp add: extract_url_pattern_examples)
  from 1 2 3 show ?thesis by (simp add: urlparse_examples)
qed

text \<open>
  C10, amended. The URL pattern is the network location followed by the path, the path
  without its trailing slashes, with every slash followed by digits replaced by
  \<^verbatim>\<open>/[ID]\<close> and every \<^verbatim>\<open>page=\<close> followed by digits replaced by \<^verbatim>\<open>page=[NUM]\<close>; the
  query and the fragment do not enter it, so whatever follows a question mark or a hash
  sign in a URL does not change its pattern. Hence, when a first call of \<open>is_duplicate\<close>
  is not a duplicate, so that the pattern of its URL is recorded, a second call whose URL
  has the same network location and path answers \<open>True\<close> whatever its content and its
  query.
\<close>

theorem url_pattern_discards_query:
  "(has_delimiter b \<longrightarrow> extract_url_pattern (b @ s) = extract_url_pattern b)
   \<and> (urlparse u = Inr pu \<longrightarrow>
        extract_url_pattern u
          = Inr (netloc pu @ sub_page_digits (sub_slash_digits (rstrip_slash (path pu)))))
   \<and> (urlparse u1 = Inr p1 \<and> urlparse u2 = Inr p2
        \<and> netloc p1 = netloc p2 \<and> path p1 = path p2
        \<and> is_duplicate md5 d c1 u1 m1 = Inr (False, d1) \<longrightarrow>
        is_duplicate md5 d1 c2 u2 m2 = Inr (True, d1))"
proof (intro conjI impI)
  assume "has_delimiter b"
  then show "extract_url_pattern (b @ s) = extract_url_pattern b"
    by (rule extract_url_pattern_append)
next
  assume "urlparse u = Inr pu"
  then show "extract_url_pattern u
      = Inr (netloc pu @ sub_page_digits (sub_slash_digits (rstrip_slash (path pu))))"
    by (rule extract_url_pattern_parsed)
next
  assume a: "urlparse u1 = Inr p1 \<and> urlparse u2 = Inr p2
      \<and> netloc p1 = netloc p2 \<and> path p1 = path p2
      \<and> is_duplicate md5 d c1 u1 m1 = Inr (False, d1)"
  then have same: "extract_url_pattern u2 = extract_url_pattern u1"
    by (intro extract_url_pattern_cong) simp
  from a obtain p where p: "extract_url_pattern u1 = Inr p"
    and d1: "d1 = d\<lparr> content_hashes := insert (md5 c1) (content_hashes d),
                     url_patterns := insert p (url_patterns d) \<rparr>"
    using is_duplicate_False_records [of md5 d c1 u1 m1 d1] by blast
  from same p have "extract_url_pattern u2 = Inr p" by simp
  then show "is_duplicate md5 d1 c2 u2 m2 = Inr (True, d1)"
    by (rule is_duplicate_seen_pattern) (simp add: d1)
qed

theorem url_pattern_discards_query_witness:
  "has_delimiter ''http://a.org/b?''
   \<and> extract_url_pattern (''http://a.org/b?'' @ ''x=1'') = extract_url_pattern ''http://a.org/b?''
   \<and> urlparse ''http://a.org/b?x=1'' =
       Inr \<lparr> scheme = ''http'', netloc = ''a.org'', path = ''/b'', params = [],
             query = ''x=1'', fragment = [] \<rparr>
   \<and> extract_url_pattern ''http://a.org/b?x=1'' = Inr ''a.org/b''
   \<and> urlparse ''http://a.org/b?y=2#z'' =
       Inr \<lparr> scheme = ''http'', netloc = ''a.org'', path = ''/b'', params = [],
             query = ''y=2'', fragment = ''z'' \<rparr>
   \<and> is_duplicate (\<lambda>c. c) new_deduplicator ''first'' ''http://a.org/b?x=1'' None
       = Inr (False, \<lparr> content_hashes = {''first''}, similarity_threshold = 0.85,
                       url_patterns = {''a.org/b''} \<rparr>)
   \<and> is_duplicate (\<lambda>c. c)
         \<lparr> content_hashes = {''first''}, similarity_threshold = 0.85,
           url_patterns = {''a.org/b''} \<rparr>
         ''second'' ''http://a.org/b?y=2#z'' None
       = Inr (True, \<lparr> content_hashes = {''first''}, similarity_threshold = 0.85,
                      url_patterns = {''a.org/b''} \<rparr>)"
proof -
  let ?p1 = "\<lparr> scheme = ''http'', netloc = ''a.org'', path = ''/b'', params = [],
             query = ''x=1'', fragment = [] \<rparr>"
  let ?p2 = "\<lparr> scheme = ''http'', netloc = ''a.org'', path = ''/b'', params = [],
             query = ''y=2'', fragment = ''z'' \<rparr>"
  let ?d1 = "\<lparr> content_hashes = {''first''}, similarity_threshold = 0.85,
             url_patterns = {''a.org/b''} \<rparr>"
  have hd: "has_delimiter ''http://a.org/b?''" by (simp add: has_delimiter_def)
  have pat: "extract_url_pattern ''http://a.org/b?x=1'' = Inr ''a.org/b''"
    by code_simp
  have first: "is_duplicate (\<lambda>c. c) new_deduplicator ''first'' ''http://a.org/b?x=1'' None
       = Inr (False, ?d1)"
    using is_duplicate_fresh [of "\<lambda>c. c" "''first''" new_deduplicator "''http://a.org/b?x=1''"
            "''a.org/b''" None] pat
    by (simp add: new_deduplicator_def)
  note inst = url_pattern_discards_query
    [of "''http://a.org/b?''" "''x=1''" "''http://a.org/b?x=1''" ?p1
        "''http://a.org/b?x=1''" ?p1 "''http://a.org/b?y=2#z''" ?p2
        "\<lambda>c. c" new_deduplicator "''first''" None ?d1 "''second''" None]
  from inst hd urlparse_examples first
  have "extract_url_pattern (''http://a.org/b?'' @ ''x=1'') = extract_url_pattern ''http://a.org/b?''"
    and "is_duplicate (\<lambda>c. c) ?d1 ''second'' ''http://a.org/b?y=2#z'' None = Inr (True, ?d1)"
    by simp_all
  with hd urlparse_examples pat first show ?thesis by simp
qed

end
